theory Spec2Isabelle
  imports Complex_Main "HOL-Library.AList"
begin

section \<open>Strings as Python's \<open>str\<close> and \<open>re\<close> see them\<close>

text \<open>
  A Python string is modelled as a \<^typ>\<open>string\<close> whose characters are the code points
  below 256. On these code points the class \<open>\d\<close> of \<open>re\<close> is exactly the ten ASCII
  digits, \<open>\w\<close> is the ASCII letters, digits and underscore together with the Latin-1
  letters and numeric signs listed in \<open>is_word_char\<close>, and \<open>str.strip\<close> removes the
  characters listed in \<open>is_space\<close>.
\<close>

definition is_digit :: "char \<Rightarrow> bool" where
  "is_digit c = (c \<in> set ''0123456789'')"

definition digit_val :: "char \<Rightarrow> nat" where
  "digit_val c = of_char c - 48"

definition digit_char :: "nat \<Rightarrow> char" where
  "digit_char d = ''0123456789'' ! d"

text \<open>\<open>int(s)\<close> on a string of decimal digits.\<close>

definition int_of_digits :: "string \<Rightarrow> nat" where
  "int_of_digits ds = foldl (\<lambda>n c. 10 * n + digit_val c) 0 ds"

text \<open>\<open>str(n)\<close> on a non-negative integer.\<close>

fun str_nat :: "nat \<Rightarrow> string" where
  "str_nat n = (if n < 10 then [digit_char n] else str_nat (n div 10) @ [digit_char (n mod 10)])"

declare str_nat.simps [simp del]

definition is_word_char :: "char \<Rightarrow> bool" where
  "is_word_char c =
     (let n = (of_char c :: nat) in
        (48 \<le> n \<and> n \<le> 57) \<or> (65 \<le> n \<and> n \<le> 90) \<or> n = 95 \<or> (97 \<le> n \<and> n \<le> 122) \<or>
        n \<in> {170, 178, 179, 181, 185, 186, 188, 189, 190} \<or>
        (192 \<le> n \<and> n \<le> 214) \<or> (216 \<le> n \<and> n \<le> 246) \<or> (248 \<le> n \<and> n \<le> 255))"

definition is_space :: "char \<Rightarrow> bool" where
  "is_space c = ((of_char c :: nat) \<in> {9, 10, 11, 12, 13, 28, 29, 30, 31, 32, 133, 160})"

definition strip :: "string \<Rightarrow> string" where
  "strip s = rev (dropWhile is_space (rev (dropWhile is_space s)))"

definition startswith :: "string \<Rightarrow> string \<Rightarrow> bool" where
  "startswith s p = (take (length p) s = p)"

text \<open>
  \<open>pattern.search(s)\<close>: the matcher is tried at every position of \<open>s\<close> from the left,
  the position after the last character included, and the first match wins.
\<close>

fun re_search :: "(string \<Rightarrow> 'a option) \<Rightarrow> string \<Rightarrow> 'a option" where
  "re_search m [] = m []"
| "re_search m (c # cs) = (case m (c # cs) of Some g \<Rightarrow> Some g | None \<Rightarrow> re_search m cs)"

text \<open>
  The pattern \<open>-(\d+)(?:-|$)\<close> anchored at the head of \<open>s\<close>, returning group 1. The
  greedy \<open>\d+\<close> takes the whole run of digits; a shorter run is followed by a digit, so
  backtracking never succeeds. \<open>$\<close> holds at the end of the string and before a newline
  that is its last character.
\<close>

definition match_episode_here :: "string \<Rightarrow> string option" where
  "match_episode_here s =
     (case s of
        [] \<Rightarrow> None
      | c # r \<Rightarrow>
          if c \<noteq> CHR ''-'' then None
          else let ds = takeWhile is_digit r; rest = dropWhile is_digit r
               in if ds \<noteq> [] \<and> (rest = [] \<or> rest = [CHR 0x0A] \<or> hd rest = CHR ''-'')
                  then Some ds else None)"

text \<open>
  The pattern \<open>https://web\.animerco\.org/seasons/([^/]+)/\<close> anchored at the head of
  \<open>s\<close>, returning group 1: the literal, the whole run of characters other than a slash
  (not empty), and a slash.
\<close>

definition seasons_prefix :: string where
  "seasons_prefix = ''https://web.animerco.org/seasons/''"

definition match_seasons_here :: "string \<Rightarrow> string option" where
  "match_seasons_here s =
     (if startswith s seasons_prefix
      then let r = drop (length seasons_prefix) s;
               name = takeWhile (\<lambda>c. c \<noteq> CHR ''/'') r;
               rest = dropWhile (\<lambda>c. c \<noteq> CHR ''/'') r
           in if name \<noteq> [] \<and> rest \<noteq> [] then Some name else None
      else None)"

definition get_anime_name_from_url :: "string \<Rightarrow> string" where
  "get_anime_name_from_url base_url =
     (case re_search match_seasons_here base_url of
        Some g \<Rightarrow> g
      | None \<Rightarrow> ''unknown_anime'')"

definition sanitize_filename :: "string \<Rightarrow> string" where
  "sanitize_filename filename =
     filter (\<lambda>c. is_word_char c \<or> c = CHR ''-'')
       (map (\<lambda>c. if c = CHR '' '' then CHR ''_'' else c) filename)"

definition cache_file_of :: "string \<Rightarrow> string" where
  "cache_file_of base_url =
     ''cache/'' @ sanitize_filename (get_anime_name_from_url base_url) @ ''.json''"


section \<open>Values, requests and the outside world\<close>

text \<open>
  What \<open>json.loads\<close> returns and \<open>json.dump\<close> accepts. A Python \<open>dict\<close> is the list
  of its items in insertion order; \<open>None\<close> is \<open>JNull\<close>. Floats are the finite ones.
\<close>

datatype json =
    JNull
  | JBool bool
  | JInt int
  | JFloat rat
  | JStr string
  | JArr "json list"
  | JObj "(string \<times> json) list"

text \<open>Python's truth value of an object, as \<open>if x:\<close> and \<open>x or y\<close> test it.\<close>

fun truthy :: "json \<Rightarrow> bool" where
  "truthy JNull = False"
| "truthy (JBool b) = b"
| "truthy (JInt i) = (i \<noteq> 0)"
| "truthy (JFloat r) = (r \<noteq> 0)"
| "truthy (JStr s) = (s \<noteq> [])"
| "truthy (JArr xs) = (xs \<noteq> [])"
| "truthy (JObj kvs) = (kvs \<noteq> [])"

text \<open>\<open>d.get(k)\<close>: the value, or \<open>None\<close> for a missing key.\<close>

definition dict_get :: "(string \<times> json) list \<Rightarrow> string \<Rightarrow> json" where
  "dict_get d k = (case map_of d k of Some v \<Rightarrow> v | None \<Rightarrow> JNull)"

text \<open>
  The exceptions of the program's steps. \<open>json.loads\<close> raises a \<open>JSONDecodeError\<close> on
  text that is not JSON, a plain \<open>ValueError\<close> on an integer beyond the digit limit and
  a \<open>RecursionError\<close> on nesting that is too deep. What the HTML parser or \<open>print\<close>
  could raise is not modelled.
\<close>

datatype exn =
    RequestException string
  | JSONDecodeError
  | KeyError
  | TypeError
  | AttributeError
  | ValueError
  | RecursionError
  | FileExistsError
  | FileNotFoundError
  | NotADirectoryError
  | IsADirectoryError

text \<open>\<open>x[k]\<close> on a decoded JSON value: only a \<open>dict\<close> that has the key answers.\<close>

fun subscript :: "json \<Rightarrow> string \<Rightarrow> exn + json" where
  "subscript (JObj d) k = (case map_of d k of Some v \<Rightarrow> Inr v | None \<Rightarrow> Inl KeyError)"
| "subscript _ k = Inl TypeError"

datatype http_method = GET | POST

datatype payload = No_data | Raw string | Form "(string \<times> string) list"

text \<open>
  A request as \<open>session.get\<close> and \<open>session.post\<close> receive it. The session's user agent
  and the constant browser headers of the AJAX call are the same on every request and
  are left out; the \<open>Referer\<close>, which varies, is kept. \<open>req_timeout\<close> is the \<open>timeout\<close>
  argument in seconds, \<open>None\<close> when the call passes none.
\<close>

record request =
  req_method :: http_method
  req_url :: string
  req_referer :: "string option"
  req_data :: payload
  req_timeout :: "nat option"

datatype response = Raises string | Response nat string

text \<open>The functions that send requests.\<close>

datatype call_site =
    At_get_postid
  | At_get_episode_embed
  | At_get_all_episodes
  | At_upload_image_from_url
  | At_get_bg_image
  | At_extract_info

text \<open>One constructor for each \<open>print\<close> of the program, with the values it formats.\<close>

datatype message =
    Failed_to_retrieve_page string exn
  | Could_not_find_postid string
  | Failed_to_get_embed string exn
  | Found_embed_url nat json
  | Failed_to_parse_json nat
  | Found_links nat nat string
  | Error_processing string exn
  | Failed_to_retrieve_main_page string exn
  | ImgBB_upload_failed json
  | ImgBB_upload_error exn
  | Failed_to_get_background_image string exn
  | Invalid_url string
  | Using_cached_data string
  | Scraping_data_for string
  | Failed_to_fetch_episodes string
  | Successfully_scraped string string
  | Process_completed

text \<open>
  What a run does that can be seen from outside: a request sent, a line printed, a
  \<open>ThreadPoolExecutor\<close> created with its \<open>max_workers\<close>.
\<close>

datatype event = Request request | Print message | Executor nat

text \<open>
  A call returns the events it caused, in order, and either the exception it raised or
  its value.
\<close>

type_synonym 'a run = "event list \<times> (exn + 'a)"

definition bind :: "'a run \<Rightarrow> ('a \<Rightarrow> 'b run) \<Rightarrow> 'b run" where
  "bind m f =
     (case m of
        (t, Inl e) \<Rightarrow> (t, Inl e)
      | (t, Inr x) \<Rightarrow> (case f x of (t', r) \<Rightarrow> (t @ t', r)))"

text \<open>
  A Python \<open>float\<close> that is a number is a binary64 value: \<open>Double m e\<close> stands for
  \<open>m * 2 ^ e\<close>, with less than 53 bits in \<open>m\<close> and \<open>e\<close> from -1074 to 971. The result
  of an operation can also be infinite (\<open>Infinity True\<close> is the positive one).
\<close>

datatype double = Double int int

datatype float = Finite double | Infinity bool

definition is_double :: "double \<Rightarrow> bool" where
  "is_double d = (case d of Double m e \<Rightarrow> \<bar>m\<bar> < 2 ^ 53 \<and> - 1074 \<le> e \<and> e \<le> 971)"

definition dval :: "double \<Rightarrow> rat" where
  "dval d = (case d of Double m e \<Rightarrow>
     if 0 \<le> e then of_int (m * 2 ^ nat e) else of_int m / of_int (2 ^ nat (- e)))"

text \<open>The number of binary digits of a natural number.\<close>

fun bits :: "nat \<Rightarrow> nat" where
  "bits n = (if n = 0 then 0 else Suc (bits (n div 2)))"

declare bits.simps [simp del]

text \<open>\<open>m / 2 ^ k\<close> rounded to the nearest integer, a tie to the even one.\<close>

definition round_half_even :: "int \<Rightarrow> nat \<Rightarrow> int" where
  "round_half_even m k =
     (let q = m div 2 ^ k; r = m mod 2 ^ k
      in if 2 * r < 2 ^ k then q
         else if 2 ^ k < 2 * r then q + 1
         else if even q then q else q + 1)"

text \<open>
  \<open>m * 2 ^ e\<close> rounded to binary64: 53 significant bits are kept, and a magnitude of
  \<open>2 ^ 1024\<close> or more overflows. (A difference of two doubles that has more than 53 bits
  is not below \<open>2 ^ -1021\<close>, so nothing is rounded in the subnormal range.)
\<close>

definition round_to_double :: "int \<Rightarrow> int \<Rightarrow> float" where
  "round_to_double m e =
     (let k = bits (nat \<bar>m\<bar>) - 53;
          m' = round_half_even m k;
          e' = e + int k
      in if 1024 < int (bits (nat \<bar>m'\<bar>)) + e' then Infinity (0 < m)
         else Finite (Double m' e'))"

text \<open>\<open>a - b\<close> on floats: the exact difference, rounded.\<close>

definition float_sub :: "double \<Rightarrow> double \<Rightarrow> float" where
  "float_sub a b =
     (case a of Double m1 e1 \<Rightarrow> case b of Double m2 e2 \<Rightarrow>
        let e = min e1 e2
        in round_to_double (m1 * 2 ^ nat (e1 - e) - m2 * 2 ^ nat (e2 - e)) e)"

text \<open>\<open>x < c\<close> for a float \<open>x\<close> and an integer literal \<open>c\<close>.\<close>

definition float_less :: "float \<Rightarrow> int \<Rightarrow> bool" where
  "float_less x c =
     (case x of
        Infinity positive \<Rightarrow> \<not> positive
      | Finite (Double m e) \<Rightarrow>
          if 0 \<le> e then m * 2 ^ nat e < c else m < c * 2 ^ nat (- e))"

text \<open>The part of a page that \<open>extract_info\<close> reads from the \<open>div.media-box\<close>.\<close>

record media_box =
  genres_links :: "string list option"
  content_p :: "string option"

text \<open>
  Everything the program reads from outside itself during one run of
  \<open>scrape_and_save\<close>:
  \<^item> \<open>respond\<close>: what the network does with the request that a call site sends (a
    run sends a request from a call site at most once: the links are unique and the
    AJAX calls differ in their \<open>Referer\<close>, so this fixes nothing about how the
    answers to equal requests are related);
  \<^item> \<open>status_error\<close>: the text of the \<open>HTTPError\<close> that \<open>raise_for_status\<close> builds;
  \<^item> \<open>cached_postid\<close>: the answer of the \<open>lru_cache\<close> around \<open>get_postid\<close> when it hits;
  \<^item> \<open>find_postid_input\<close>: \<open>soup.find("input", {"type": "hidden", "name": "postid"})\<close>
    on a page text: \<open>None\<close> when there is no such element, else its \<open>value\<close> attribute
    (\<open>None\<close> when the element has none);
  \<^item> \<open>select_episode_links\<close>: the \<open>href\<close>s of \<open>soup.select(".episodes-lists a[href]")\<close>;
  \<^item> \<open>select_bg_image\<close>: \<open>soup.select_one("div.anime-card.player a.image")\<close>: \<open>None\<close>
    when there is no such element, else its \<open>data-src\<close> attribute;
  \<^item> \<open>find_media_box\<close>: \<open>soup.find("div", class_="media-box")\<close>;
  \<^item> \<open>json_loads\<close>, \<open>json_dump\<close>: the \<open>json\<close> module (\<open>json.loads\<close> and
    \<open>response.json()\<close> give the value or the exception they raise);
  \<^item> \<open>int_max_str_digits\<close>: the interpreter's limit on \<open>int(str)\<close>, 0 for none
    (4300 by default since Python 3.11);
  \<^item> \<open>as_completed\<close>: the order in which \<open>concurrent.futures.as_completed\<close> yields
    the episode futures, as positions in \<open>unique_links\<close> (futures that are done when the
    loop starts come in no particular order, the others as they complete);
  \<^item> the clock, as \<open>time.time()\<close> and the modification times read it: at the creation
    of the directory, at the freshness check, at the opening of the cache file and at the
    end of the write.
\<close>

record world =
  respond :: "call_site \<Rightarrow> request \<Rightarrow> response"
  status_error :: "nat \<Rightarrow> string \<Rightarrow> string"
  cached_postid :: "string \<Rightarrow> string option option"
  find_postid_input :: "string \<Rightarrow> string option option"
  select_episode_links :: "string \<Rightarrow> string list"
  select_bg_image :: "string \<Rightarrow> string option option"
  find_media_box :: "string \<Rightarrow> media_box option"
  json_loads :: "string \<Rightarrow> exn + json"
  json_dump :: "json \<Rightarrow> string"
  int_max_str_digits :: nat
  as_completed :: "nat list"
  time_at_makedirs :: double
  time_at_check :: double
  time_at_open :: double
  time_at_write :: double

definition ADMIN_URL :: string where
  "ADMIN_URL = ''https://web.animerco.org/wp-admin/admin-ajax.php''"

definition IMG_BB_API_KEY :: string where
  "IMG_BB_API_KEY = ''540a4171008b7d59dbc4cc88e8a8ce4b''"

definition MAX_WORKERS :: nat where
  "MAX_WORKERS = 10"

text \<open>
  \<open>session.get\<close> or \<open>session.post\<close> followed by \<open>response.raise_for_status()\<close>: the
  text of the response, or the message of the \<open>RequestException\<close> raised by either
  (a status from 400 to 599 raises).
\<close>

definition send :: "world \<Rightarrow> call_site \<Rightarrow> request \<Rightarrow> string + string" where
  "send w site rq =
     (case respond w site rq of
        Raises e \<Rightarrow> Inl e
      | Response status text \<Rightarrow>
          if 400 \<le> status \<and> status < 600
          then Inl (status_error w status (req_url rq))
          else Inr text)"

definition http_get :: "string \<Rightarrow> nat \<Rightarrow> request" where
  "http_get url secs =
     \<lparr>req_method = GET, req_url = url, req_referer = None, req_data = No_data,
      req_timeout = Some secs\<rparr>"

section \<open>Resolving one episode\<close>

definition get_postid_uncached :: "world \<Rightarrow> string \<Rightarrow> string option run" where
  "get_postid_uncached w url =
     (let rq = http_get url 10 in
      case send w At_get_postid rq of
        Inl e \<Rightarrow> ([Request rq, Print (Failed_to_retrieve_page url (RequestException e))], Inr None)
      | Inr text \<Rightarrow>
          (case find_postid_input w text of
             None \<Rightarrow> ([Request rq], Inr None)
           | Some None \<Rightarrow> ([Request rq], Inl KeyError)
           | Some (Some v) \<Rightarrow> ([Request rq], Inr (Some v))))"

definition get_postid :: "world \<Rightarrow> string \<Rightarrow> string option run" where
  "get_postid w url =
     (case cached_postid w url of
        Some r \<Rightarrow> ([], Inr r)
      | None \<Rightarrow> get_postid_uncached w url)"

definition ajax_request :: "string \<Rightarrow> string \<Rightarrow> request" where
  "ajax_request episode_url postid_value =
     \<lparr>req_method = POST, req_url = ADMIN_URL, req_referer = Some episode_url,
      req_data = Raw (''action=player_ajax&post='' @ postid_value @ ''&nume=1&type=tv''),
      req_timeout = Some 10\<rparr>"

definition get_episode_embed :: "world \<Rightarrow> string \<Rightarrow> string option run" where
  "get_episode_embed w episode_url =
     bind (get_postid w episode_url) (\<lambda>postid_value.
       case postid_value of
         None \<Rightarrow> ([Print (Could_not_find_postid episode_url)], Inr None)
       | Some v \<Rightarrow>
           if v = [] then ([Print (Could_not_find_postid episode_url)], Inr None)
           else let rq = ajax_request episode_url v in
             (case send w At_get_episode_embed rq of
                Inl e \<Rightarrow> ([Request rq, Print (Failed_to_get_embed episode_url (RequestException e))], Inr None)
              | Inr text \<Rightarrow> ([Request rq], Inr (Some text))))"

definition extract_episode_number :: "world \<Rightarrow> string \<Rightarrow> exn + nat option" where
  "extract_episode_number w url =
     (case re_search match_episode_here url of
        None \<Rightarrow> Inr None
      | Some ds \<Rightarrow>
          if int_max_str_digits w \<noteq> 0 \<and> int_max_str_digits w < length ds
          then Inl ValueError
          else Inr (Some (int_of_digits ds)))"

text \<open>\<open>extract_episode_number(link) or index\<close>: \<open>None\<close> and 0 both give the index.\<close>

definition episode_number :: "world \<Rightarrow> string \<Rightarrow> nat \<Rightarrow> exn + nat" where
  "episode_number w link index =
     (case extract_episode_number w link of
        Inl e \<Rightarrow> Inl e
      | Inr None \<Rightarrow> Inr index
      | Inr (Some n) \<Rightarrow> Inr (if n \<noteq> 0 then n else index))"

definition episode_result :: "nat \<Rightarrow> string \<Rightarrow> json \<Rightarrow> json \<Rightarrow> json" where
  "episode_result ep_num link embed_url embed_type =
     JObj [(''episode'', JInt (int ep_num)), (''page_url'', JStr link),
           (''embed_url'', embed_url), (''type'', embed_type)]"

definition process_episode_link :: "world \<Rightarrow> string \<Rightarrow> nat \<Rightarrow> (string \<times> json) option run" where
  "process_episode_link w link index =
     bind ([], episode_number w link index) (\<lambda>ep_num.
       bind (get_episode_embed w link) (\<lambda>embed_info.
         case embed_info of
           None \<Rightarrow> ([], Inr None)
         | Some text \<Rightarrow>
             if text = [] then ([], Inr None)
             else (case json_loads w text of
                Inl e \<Rightarrow>
                  if e = JSONDecodeError
                  then ([Print (Failed_to_parse_json ep_num)], Inr None)
                  else ([], Inl e)
              | Inr (JObj embed_data) \<Rightarrow>
                  let embed_url = dict_get embed_data ''embed_url'' in
                  if truthy embed_url
                  then ([Print (Found_embed_url ep_num embed_url)],
                        Inr (Some (str_nat ep_num,
                               episode_result ep_num link embed_url (dict_get embed_data ''type''))))
                  else ([], Inr None)
              | Inr _ \<Rightarrow> ([], Inl AttributeError))))"


section \<open>All episodes of a title\<close>

text \<open>The loop that keeps the first occurrence of every link.\<close>

fun unique_loop :: "string list \<Rightarrow> string list \<times> string set \<Rightarrow> string list \<times> string set" where
  "unique_loop [] (unique_links, seen_urls) = (unique_links, seen_urls)"
| "unique_loop (link # rest) (unique_links, seen_urls) =
     (if link \<notin> seen_urls
      then unique_loop rest (unique_links @ [link], insert link seen_urls)
      else unique_loop rest (unique_links, seen_urls))"

text \<open>
  The loop over \<open>as_completed\<close>: the futures are taken in the order they are yielded; a
  result is stored under its key, \<open>None\<close> is skipped, an exception is printed. The events
  of a task are placed where its future is yielded.
\<close>

fun collect ::
  "world \<Rightarrow> string list \<Rightarrow> nat list \<Rightarrow> (string \<times> json) list \<Rightarrow> event list \<times> (string \<times> json) list"
where
  "collect w links [] embed_results = ([], embed_results)"
| "collect w links (i # order) embed_results =
     (case process_episode_link w (links ! i) (i + 1) of
        (t, Inr (Some (ep_num, data))) \<Rightarrow>
          (case collect w links order (AList.update ep_num data embed_results) of
             (t', r) \<Rightarrow> (t @ t', r))
      | (t, Inr None) \<Rightarrow>
          (case collect w links order embed_results of
             (t', r) \<Rightarrow> (t @ t', r))
      | (t, Inl e) \<Rightarrow>
          (case collect w links order embed_results of
             (t', r) \<Rightarrow> (t @ [Print (Error_processing (links ! i) e)] @ t', r)))"

definition links_of :: "world \<Rightarrow> string \<Rightarrow> string list" where
  "links_of w text = fst (unique_loop (select_episode_links w text) ([], {}))"

text \<open>
  The pool is created with \<open>max_workers=MAX_WORKERS\<close> and every link is submitted to it.
  The order in which \<open>as_completed\<close> yields the futures is a permutation of the positions
  of \<open>unique_links\<close>; positions beyond them, which no run has, are dropped.
\<close>

definition get_all_episodes :: "world \<Rightarrow> string \<Rightarrow> (string \<times> json) list option run" where
  "get_all_episodes w base_url =
     (let rq = http_get base_url 10 in
      case send w At_get_all_episodes rq of
        Inl e \<Rightarrow>
          ([Request rq, Print (Failed_to_retrieve_main_page base_url (RequestException e))],
           Inr None)
      | Inr text \<Rightarrow>
          let episodes_list = select_episode_links w text;
              unique_links = links_of w text;
              order = filter (\<lambda>i. i < length unique_links) (as_completed w)
          in case collect w unique_links order [] of
               (t, embed_results) \<Rightarrow>
                 ([Request rq,
                   Print (Found_links (length episodes_list) (length unique_links) base_url),
                   Executor MAX_WORKERS] @ t,
                  Inr (Some embed_results)))"


section \<open>Image and info\<close>

definition upload_request :: "string \<Rightarrow> request" where
  "upload_request image_url =
     \<lparr>req_method = POST, req_url = ''https://api.imgbb.com/1/upload'', req_referer = None,
      req_data = Form [(''key'', IMG_BB_API_KEY), (''image'', image_url)],
      req_timeout = Some 15\<rparr>"

text \<open>The body of the \<open>try\<close> of \<open>upload_image_from_url\<close>.\<close>

definition upload_attempt :: "world \<Rightarrow> request \<Rightarrow> json run" where
  "upload_attempt w rq =
     (case send w At_upload_image_from_url rq of
        Inl e \<Rightarrow> ([Request rq], Inl (RequestException e))
      | Inr text \<Rightarrow>
          (case json_loads w text of
             Inl e \<Rightarrow> ([Request rq], Inl e)
           | Inr data \<Rightarrow>
               bind ([Request rq], subscript data ''success'') (\<lambda>success.
                 if truthy success
                 then bind ([], subscript data ''data'') (\<lambda>d. ([], subscript d ''url''))
                 else ([Print (ImgBB_upload_failed data)], Inr JNull))))"

definition upload_image_from_url :: "world \<Rightarrow> string \<Rightarrow> json run" where
  "upload_image_from_url w image_url =
     (if image_url = [] then ([], Inr JNull)
      else case upload_attempt w (upload_request image_url) of
             (t, Inl e) \<Rightarrow> (t @ [Print (ImgBB_upload_error e)], Inr JNull)
           | (t, Inr v) \<Rightarrow> (t, Inr v))"

definition get_bg_image :: "world \<Rightarrow> string \<Rightarrow> json run" where
  "get_bg_image w base_url =
     (let rq = http_get base_url 10 in
      case send w At_get_bg_image rq of
        Inl e \<Rightarrow>
          ([Request rq, Print (Failed_to_get_background_image base_url (RequestException e))],
           Inr JNull)
      | Inr text \<Rightarrow>
          (case select_bg_image w text of
             Some (Some bg_image_url) \<Rightarrow>
               bind ([Request rq], Inr ()) (\<lambda>_. upload_image_from_url w bg_image_url)
           | _ \<Rightarrow> ([Request rq], Inr JNull)))"

definition extract_info :: "world \<Rightarrow> string \<Rightarrow> json run" where
  "extract_info w base_url =
     (let rq = http_get base_url 10 in
      case send w At_extract_info rq of
        Inl e \<Rightarrow> ([Request rq], Inr (JObj [(''error'', JStr (''Request failed: '' @ e))]))
      | Inr text \<Rightarrow>
          (case find_media_box w text of
             None \<Rightarrow> ([Request rq], Inr (JObj [(''error'', JStr ''media-box not found'')]))
           | Some box \<Rightarrow>
               let genre_list =
                     (case genres_links box of
                        None \<Rightarrow> []
                      | Some as \<Rightarrow> map (\<lambda>a. JObj [(''text'', JStr (strip a))]) as);
                   content_text =
                     (case content_p box of
                        None \<Rightarrow> JNull
                      | Some p \<Rightarrow> JStr (strip p))
               in ([Request rq],
                   Inr (JObj [(''genres'', JArr genre_list), (''content'', content_text)]))))"

section \<open>The cache\<close>

text \<open>
  The file system below the working directory: a path is absent, a directory or a file
  with its content; both carry the time of their last modification. The working
  directory itself, permissions and full disks are not modelled.
\<close>

datatype node = Dir double | File double string

fun mtime :: "node \<Rightarrow> double" where
  "mtime (Dir t) = t"
| "mtime (File t c) = t"

type_synonym fs = "string \<rightharpoonup> node"

text \<open>\<open>os.makedirs(path, exist_ok=True)\<close> for a path of one component.\<close>

definition makedirs :: "world \<Rightarrow> fs \<Rightarrow> string \<Rightarrow> exn + fs" where
  "makedirs w fs path =
     (case fs path of
        None \<Rightarrow> Inr (fs(path \<mapsto> Dir (time_at_makedirs w)))
      | Some (Dir t) \<Rightarrow> Inr fs
      | Some (File t c) \<Rightarrow> Inl FileExistsError)"

text \<open>\<open>os.path.dirname\<close> of a relative path: what stands before its last slash.\<close>

definition dirname :: "string \<Rightarrow> string" where
  "dirname path =
     (if CHR ''/'' \<in> set path
      then rev (tl (dropWhile (\<lambda>c. c \<noteq> CHR ''/'') (rev path)))
      else [])"

text \<open>
  \<open>open(path, "w")\<close> and the write of the whole content. An existing file is truncated
  and written; a missing one is created in its directory, whose modification time
  changes with the new entry.
\<close>

definition write_file :: "world \<Rightarrow> fs \<Rightarrow> string \<Rightarrow> string \<Rightarrow> exn + fs" where
  "write_file w fs path content =
     (case fs path of
        Some (Dir t) \<Rightarrow> Inl IsADirectoryError
      | Some (File t c) \<Rightarrow> Inr (fs(path \<mapsto> File (time_at_write w) content))
      | None \<Rightarrow>
          (case fs (dirname path) of
             None \<Rightarrow> Inl FileNotFoundError
           | Some (File t c) \<Rightarrow> Inl NotADirectoryError
           | Some (Dir t) \<Rightarrow>
               Inr (fs(dirname path \<mapsto> Dir (time_at_open w),
                       path \<mapsto> File (time_at_write w) content))))"

definition data_to_save :: "string \<Rightarrow> json \<Rightarrow> json \<Rightarrow> (string \<times> json) list \<Rightarrow> json" where
  "data_to_save base_url img_url info episodes =
     JObj [(''success'', JBool True), (''base_url'', JStr base_url), (''imgUrl'', img_url),
           (''info'', info), (''episodes'', JObj episodes)]"

text \<open>
  \<open>file_age = time.time() - os.path.getmtime(cache_file)\<close> is a difference of floats and
  \<open>file_age < 86400\<close> a comparison of floats. The three tasks of the pool of
  \<open>scrape_and_save\<close> are independent; their events are listed in the order of submission.
\<close>

definition scrape_and_save :: "world \<Rightarrow> fs \<Rightarrow> string \<Rightarrow> fs run" where
  "scrape_and_save w fs base_url =
     (if \<not> startswith base_url ''https://web.animerco.org/''
      then ([Print (Invalid_url base_url)], Inr fs)
      else bind ([], makedirs w fs ''cache'') (\<lambda>fs1.
        let anime_name = get_anime_name_from_url base_url;
            safe_anime_name = sanitize_filename anime_name;
            cache_file = ''cache/'' @ safe_anime_name @ ''.json''
        in if (case fs1 cache_file of
                 None \<Rightarrow> False
               | Some nd \<Rightarrow> float_less (float_sub (time_at_check w) (mtime nd)) 86400)
           then ([Print (Using_cached_data cache_file)], Inr fs1)
           else
             bind ([Print (Scraping_data_for base_url), Executor 3], Inr ()) (\<lambda>_.
             bind (get_all_episodes w base_url) (\<lambda>episodes.
             bind (get_bg_image w base_url) (\<lambda>img_url.
             bind (extract_info w base_url) (\<lambda>info.
               case episodes of
                 None \<Rightarrow> ([Print (Failed_to_fetch_episodes base_url)], Inr fs1)
               | Some eps \<Rightarrow>
                   bind ([], write_file w fs1 cache_file
                               (json_dump w (data_to_save base_url img_url info eps)))
                     (\<lambda>fs2. ([Print (Successfully_scraped base_url cache_file),
                               Print Process_completed], Inr fs2))))))))"


section \<open>A small world to run the program in\<close>

text \<open>
  A title page with three episode anchors, two of them equal; every episode page carries
  the post identifier 77, the AJAX endpoint answers with an embed record and the image
  host accepts the upload.
\<close>

definition demo_url :: string where
  "demo_url = ''https://web.animerco.org/seasons/naruto/''"

definition demo_embed :: json where
  "demo_embed = JObj [(''embed_url'', JStr ''https://video.example/e''), (''type'', JStr ''iframe'')]"

definition demo_upload :: json where
  "demo_upload =
     JObj [(''success'', JBool True), (''data'', JObj [(''url'', JStr ''https://i.ibb.co/x.jpg'')])]"

text \<open>A compact serializer, which stands for \<open>json.dump\<close> in the demo world.\<close>

fun demo_dump :: "json \<Rightarrow> string" where
  "demo_dump JNull = ''null''"
| "demo_dump (JBool b) = (if b then ''true'' else ''false'')"
| "demo_dump (JInt i) = (if i < 0 then ''-'' @ str_nat (nat (- i)) else str_nat (nat i))"
| "demo_dump (JFloat r) = ''<float>''"
| "demo_dump (JStr s) = [CHR 0x22] @ s @ [CHR 0x22]"
| "demo_dump (JArr xs) = ''['' @ concat (map (\<lambda>x. demo_dump x @ '','') xs) @ '']''"
| "demo_dump (JObj d) =
     ''{'' @ concat (map (\<lambda>(k, v). [CHR 0x22] @ k @ [CHR 0x22] @ '':'' @ demo_dump v @ '','') d) @ ''}''"

definition demo_world :: world where
  "demo_world =
     \<lparr>respond = (\<lambda>site rq.
        if req_url rq = demo_url then Response 200 ''main''
        else if req_url rq = ADMIN_URL then Response 200 ''embed''
        else if req_url rq = ''https://api.imgbb.com/1/upload'' then Response 200 ''img''
        else Response 200 ''episode''),
      status_error = (\<lambda>status url. ''HTTP error''),
      cached_postid = (\<lambda>url. None),
      find_postid_input = (\<lambda>text. if text = ''episode'' then Some (Some ''77'') else None),
      select_episode_links = (\<lambda>text. if text = ''main'' then [''/ep-2-x'', ''/ep-5'', ''/ep-2-x''] else []),
      select_bg_image = (\<lambda>text. if text = ''main'' then Some (Some ''https://img.example/bg.jpg'') else None),
      find_media_box = (\<lambda>text.
        if text = ''main''
        then Some \<lparr>genres_links = Some ['' Action ''], content_p = Some ''A story. ''\<rparr>
        else None),
      json_loads = (\<lambda>text.
        if text = ''embed'' then Inr demo_embed
        else if text = ''img'' then Inr demo_upload
        else Inl JSONDecodeError),
      json_dump = demo_dump,
      int_max_str_digits = 4300,
      as_completed = [1, 0],
      time_at_makedirs = Double 100000 0,
      time_at_check = Double 100001 0,
      time_at_open = Double 100008 0,
      time_at_write = Double 100009 0\<rparr>"

definition demo_episode :: "nat \<Rightarrow> string \<Rightarrow> json" where
  "demo_episode n link =
     JObj [(''episode'', JInt (int n)), (''page_url'', JStr link),
           (''embed_url'', JStr ''https://video.example/e''), (''type'', JStr ''iframe'')]"

definition demo_info :: json where
  "demo_info =
     JObj [(''genres'', JArr [JObj [(''text'', JStr ''Action'')]]), (''content'', JStr ''A story.'')]"

definition demo_record :: json where
  "demo_record =
     JObj [(''success'', JBool True),
           (''base_url'', JStr demo_url),
           (''imgUrl'', JStr ''https://i.ibb.co/x.jpg''),
           (''info'', demo_info),
           (''episodes'',
            JObj [(''5'', demo_episode 5 ''/ep-5''), (''2'', demo_episode 2 ''/ep-2-x'')])]"

definition demo_trace :: "event list" where
  "demo_trace =
     [Print (Scraping_data_for demo_url),
      Executor 3,
      Request (http_get demo_url 10),
      Print (Found_links 3 2 demo_url),
      Executor 10,
      Request (http_get ''/ep-5'' 10),
      Request (ajax_request ''/ep-5'' ''77''),
      Print (Found_embed_url 5 (JStr ''https://video.example/e'')),
      Request (http_get ''/ep-2-x'' 10),
      Request (ajax_request ''/ep-2-x'' ''77''),
      Print (Found_embed_url 2 (JStr ''https://video.example/e'')),
      Request (http_get demo_url 10),
      Request (upload_request ''https://img.example/bg.jpg''),
      Request (http_get demo_url 10),
      Print (Successfully_scraped demo_url ''cache/naruto.json''),
      Print Process_completed]"

definition demo_fs :: fs where
  "demo_fs =
     [''cache'' \<mapsto> Dir (Double 100008 0),
      ''cache/naruto.json'' \<mapsto> File (Double 100009 0) (demo_dump demo_record)]"

text \<open>
  A cache written long before the run; the same world a minute after the run; and a
  clock and a modification time that are less than a day apart, while their difference
  as floats is a day.
\<close>

definition stale_fs :: fs where
  "stale_fs =
     [''cache'' \<mapsto> Dir (Double 5 0), ''cache/naruto.json'' \<mapsto> File (Double 7 0) ''old'']"

definition demo_later :: world where
  "demo_later = demo_world\<lparr>time_at_makedirs := Double 100060 0,
     time_at_check := Double 100061 0, time_at_open := Double 100068 0,
     time_at_write := Double 100069 0\<rparr>"

definition edge_clock :: double where
  "edge_clock = Double (86400 * 2 ^ 36 + 137) (- 36)"

definition edge_mtime :: double where
  "edge_mtime = Double 4835703278458517 (- 81)"

definition edge_world :: world where
  "edge_world = demo_world\<lparr>time_at_check := edge_clock\<rparr>"

definition edge_fs :: fs where
  "edge_fs =
     [''cache'' \<mapsto> Dir edge_mtime, ''cache/naruto.json'' \<mapsto> File edge_mtime ''old'']"


section \<open>Notions of the statements, and further worlds\<close>

text \<open>
  A URL matches the pattern \<open>https://web.animerco.org/seasons/<name>/\<close> when it contains
  the literal followed by a name, which is not empty and has no slash, and a slash.
\<close>

definition matches_seasons_pattern :: "string \<Rightarrow> bool" where
  "matches_seasons_pattern url =
     (\<exists>pre name post. url = pre @ seasons_prefix @ name @ ''/'' @ post \<and>
        name \<noteq> [] \<and> CHR ''/'' \<notin> set name)"

text \<open>
  The age of a file as \<open>scrape_and_save\<close> computes it, and its test on the cache
  file: it exists and that age is less than 86400.
\<close>

definition file_age :: "world \<Rightarrow> node \<Rightarrow> float" where
  "file_age w nd = float_sub (time_at_check w) (mtime nd)"

definition fresh :: "world \<Rightarrow> fs \<Rightarrow> string \<Rightarrow> bool" where
  "fresh w fs path =
     (case fs path of
        None \<Rightarrow> False
      | Some nd \<Rightarrow> float_less (file_age w nd) 86400)"

text \<open>
  The deadline a request is sent with: 15 seconds for the upload to the image host, 10
  seconds for everything else.
\<close>

definition request_ok :: "request \<Rightarrow> bool" where
  "request_ok rq =
     (req_timeout rq =
        (if req_method rq = POST \<and> req_url rq = ''https://api.imgbb.com/1/upload''
         then Some 15 else Some 10))"

fun event_ok :: "event \<Rightarrow> bool" where
  "event_ok (Request rq) = request_ok rq"
| "event_ok (Print m) = True"
| "event_ok (Executor c) = True"

text \<open>
  The demo world with episode pages whose hidden input \<open>postid\<close> has no \<open>value\<close>
  attribute.
\<close>

definition valueless_world :: world where
  "valueless_world =
     demo_world\<lparr>find_postid_input := (\<lambda>text. if text = ''episode'' then Some None else None)\<rparr>"

text \<open>
  What the future of the link at position \<open>i\<close> of \<open>unique_links\<close> gives, whether it
  is a result, and the results of the futures of an order, in that order.
\<close>

definition outcome :: "world \<Rightarrow> string list \<Rightarrow> nat \<Rightarrow> exn + (string \<times> json) option" where
  "outcome w links i = snd (process_episode_link w (links ! i) (i + 1))"

definition succeeded :: "world \<Rightarrow> string list \<Rightarrow> nat \<Rightarrow> bool" where
  "succeeded w links i = (case outcome w links i of Inr (Some kv) \<Rightarrow> True | _ \<Rightarrow> False)"

fun successes :: "world \<Rightarrow> string list \<Rightarrow> nat list \<Rightarrow> (string \<times> json) list" where
  "successes w links [] = []"
| "successes w links (i # order) =
     (case outcome w links i of
        Inr (Some kv) \<Rightarrow> kv # successes w links order
      | _ \<Rightarrow> successes w links order)"

text \<open>\<open>r[k]\<close> read from a record that is known to hold the key.\<close>

fun field :: "json \<Rightarrow> string \<Rightarrow> json" where
  "field (JObj d) k = dict_get d k"
| "field _ k = JNull"

text \<open>
  The demo world with two episode links that carry the same number, and with a link that
  carries the number of the position of a link without one.
\<close>

definition collision_world :: world where
  "collision_world =
     demo_world\<lparr>select_episode_links :=
       (\<lambda>text. if text = ''main'' then [''/a-7-x'', ''/b-7-x''] else [])\<rparr>"

definition fallback_world :: world where
  "fallback_world =
     demo_world\<lparr>select_episode_links :=
       (\<lambda>text. if text = ''main'' then [''/x-2-y'', ''/special''] else [])\<rparr>"

text \<open>The executors that a list of events creates, by their \<open>max_workers\<close>.\<close>

fun executors_of :: "event list \<Rightarrow> nat list" where
  "executors_of [] = []"
| "executors_of (Executor c # t) = c # executors_of t"
| "executors_of (e # t) = executors_of t"

text \<open>
  The shape of the persisted record. A genre is a record with a \<open>text\<close>; an info record
  holds the genre list and the description (a string or null); an episode record holds
  the episode number, the page URL, a truthy embed URL and the embed type and stands under
  the decimal string of its number. \<open>cache_record_shape\<close> is the flat record of the five
  fields, in their order, with a boolean flag, the URL as a string and what is asked of the
  image URL and the info; \<open>spec_record_shape\<close> is the record as the specification describes
  it, with an image URL that is a string or null and an optional info record.
\<close>

fun is_str :: "json \<Rightarrow> bool" where
  "is_str (JStr s) = True"
| "is_str _ = False"

fun is_bool :: "json \<Rightarrow> bool" where
  "is_bool (JBool b) = True"
| "is_bool _ = False"

definition is_genre :: "json \<Rightarrow> bool" where
  "is_genre j = (case j of JObj d \<Rightarrow> map fst d = [''text''] \<and> is_str (dict_get d ''text'') | _ \<Rightarrow> False)"

definition is_info_record :: "json \<Rightarrow> bool" where
  "is_info_record j =
     (case j of
        JObj d \<Rightarrow>
          map fst d = [''genres'', ''content''] \<and>
          (case dict_get d ''genres'' of JArr gs \<Rightarrow> list_all is_genre gs | _ \<Rightarrow> False) \<and>
          (dict_get d ''content'' = JNull \<or> is_str (dict_get d ''content''))
      | _ \<Rightarrow> False)"

definition is_error_record :: "json \<Rightarrow> bool" where
  "is_error_record j =
     (case j of JObj d \<Rightarrow> map fst d = [''error''] \<and> is_str (dict_get d ''error'') | _ \<Rightarrow> False)"

definition is_episode_record :: "string \<Rightarrow> json \<Rightarrow> bool" where
  "is_episode_record key j =
     (case j of
        JObj d \<Rightarrow>
          map fst d = [''episode'', ''page_url'', ''embed_url'', ''type''] \<and>
          (case dict_get d ''episode'' of JInt n \<Rightarrow> 0 \<le> n \<and> key = str_nat (nat n) | _ \<Rightarrow> False) \<and>
          is_str (dict_get d ''page_url'') \<and>
          truthy (dict_get d ''embed_url'')
      | _ \<Rightarrow> False)"

definition cache_record_shape :: "(json \<Rightarrow> bool) \<Rightarrow> (json \<Rightarrow> bool) \<Rightarrow> json \<Rightarrow> bool" where
  "cache_record_shape img_ok info_ok j =
     (case j of
        JObj d \<Rightarrow>
          map fst d = [''success'', ''base_url'', ''imgUrl'', ''info'', ''episodes''] \<and>
          is_bool (dict_get d ''success'') \<and>
          is_str (dict_get d ''base_url'') \<and>
          img_ok (dict_get d ''imgUrl'') \<and>
          info_ok (dict_get d ''info'') \<and>
          (case dict_get d ''episodes'' of
             JObj eps \<Rightarrow>
               distinct (map fst eps) \<and> list_all (\<lambda>(k, e). is_episode_record k e) eps
           | _ \<Rightarrow> False)
      | _ \<Rightarrow> False)"

definition spec_record_shape :: "json \<Rightarrow> bool" where
  "spec_record_shape =
     cache_record_shape (\<lambda>img. img = JNull \<or> is_str img) (\<lambda>info. info = JNull \<or> is_info_record info)"


text \<open>The demo world with a title page that has no \<open>div.media-box\<close>.\<close>

definition no_box_world :: world where
  "no_box_world = demo_world\<lparr>find_media_box := (\<lambda>text. None)\<rparr>"

definition no_box_record :: json where
  "no_box_record =
     JObj [(''success'', JBool True),
           (''base_url'', JStr demo_url),
           (''imgUrl'', JStr ''https://i.ibb.co/x.jpg''),
           (''info'', JObj [(''error'', JStr ''media-box not found'')]),
           (''episodes'',
            JObj [(''5'', demo_episode 5 ''/ep-5''), (''2'', demo_episode 2 ''/ep-2-x'')])]"



text \<open>
  The demo world without a network; a file system where \<open>cache\<close> is a regular file; a
  world where eight of nine episodes fail, each in another way (the page answers 404, the
  page has no post identifier, the AJAX call breaks, the AJAX answer is not JSON, the
  AJAX answer is empty, the AJAX answer is nested too deep, it has no \<open>embed_url\<close>, it
  is a list), the image host answers with something that is not JSON and the title page
  has no \<open>div.media-box\<close>; a world whose title page has no background image; and a
  world whose image host refuses the upload.
\<close>

definition offline_world :: world where
  "offline_world = demo_world\<lparr>respond := (\<lambda>site rq. Raises ''timed out'')\<rparr>"

definition blocked_fs :: fs where
  "blocked_fs = [''cache'' \<mapsto> File (Double 1 0) ''x'']"

definition broken_links :: "string list" where
  "broken_links =
     [''/ep-1-a'', ''/ep-2-b'', ''/ep-3-c'', ''/ep-4-d'', ''/ep-5-e'', ''/ep-6-f'', ''/ep-7-g'',
      ''/ep-8-h'', ''/ep-9-i'']"

definition broken_world :: world where
  "broken_world =
     demo_world\<lparr>respond :=
       (\<lambda>site rq. if req_url rq = ''/ep-1-a'' then Response 404 []
             else if req_url rq = ''/ep-2-b'' then Response 200 ''bare''
             else if req_referer rq = Some ''/ep-3-c'' then Raises ''reset''
             else if req_referer rq = Some ''/ep-4-d'' then Response 200 ''garbage''
             else if req_referer rq = Some ''/ep-6-f'' then Response 200 []
             else if req_referer rq = Some ''/ep-7-g'' then Response 200 ''deep''
             else if req_referer rq = Some ''/ep-8-h'' then Response 200 ''noembed''
             else if req_referer rq = Some ''/ep-9-i'' then Response 200 ''list''
             else if req_url rq = ''https://api.imgbb.com/1/upload'' then Response 200 ''garbage''
             else respond demo_world site rq),
       select_episode_links := (\<lambda>text. if text = ''main'' then broken_links else []),
       find_media_box := (\<lambda>text. None),
       json_loads := (\<lambda>text.
             if text = ''deep'' then Inl RecursionError
             else if text = ''noembed'' then Inr (JObj [(''type'', JStr ''iframe'')])
             else if text = ''list'' then Inr (JArr [])
             else json_loads demo_world text),
       as_completed := [0, 1, 2, 3, 4, 5, 6, 7, 8]\<rparr>"

definition no_image_world :: world where
  "no_image_world = demo_world\<lparr>select_bg_image := (\<lambda>text. None)\<rparr>"

definition refused_world :: world where
  "refused_world =
     demo_world\<lparr>json_loads :=
       (\<lambda>text. if text = ''img'' then Inr (JObj [(''success'', JBool False)])
              else json_loads demo_world text)\<rparr>"

section \<open>Evaluation\<close>

lemmas demo_defs = demo_world_def demo_url_def demo_embed_def demo_upload_def demo_episode_def demo_info_def
  demo_record_def demo_trace_def demo_fs_def stale_fs_def demo_later_def valueless_world_def
  collision_world_def fallback_world_def no_box_world_def no_box_record_def
  offline_world_def blocked_fs_def broken_links_def broken_world_def no_image_world_def
  refused_world_def edge_clock_def edge_mtime_def edge_world_def edge_fs_def

lemmas string_defs = is_digit_def digit_val_def digit_char_def int_of_digits_def str_nat.simps is_word_char_def
  is_space_def strip_def startswith_def match_episode_here_def seasons_prefix_def match_seasons_here_def
  get_anime_name_from_url_def sanitize_filename_def cache_file_of_def

lemma bits_0: "bits 0 = 0"
  by (subst bits.simps) simp

lemma bits_1: "bits (Suc 0) = Suc 0"
  by (subst bits.simps) (simp add: bits_0)

lemma bits_One: "bits (numeral Num.One) = Suc 0"
  by (simp add: bits_1)

lemma bits_Bit0: "bits (numeral (Num.Bit0 k)) = Suc (bits (numeral k))"
  by (subst bits.simps) simp

lemma bits_Bit1: "bits (numeral (Num.Bit1 k)) = Suc (bits (numeral k))"
  by (subst bits.simps) simp

lemma round_half_even_unfold:
  "round_half_even m k =
     (if 2 * (m mod 2 ^ k) < 2 ^ k then m div 2 ^ k
      else if 2 ^ k < 2 * (m mod 2 ^ k) then m div 2 ^ k + 1
      else if even (m div 2 ^ k) then m div 2 ^ k else m div 2 ^ k + 1)"
  unfolding round_half_even_def Let_def ..

lemma round_to_double_unfold:
  "round_to_double m e =
     (if 1024 < int (bits (nat \<bar>round_half_even m (bits (nat \<bar>m\<bar>) - 53)\<bar>)) +
                  (e + int (bits (nat \<bar>m\<bar>) - 53))
      then Infinity (0 < m)
      else Finite (Double (round_half_even m (bits (nat \<bar>m\<bar>) - 53))
                          (e + int (bits (nat \<bar>m\<bar>) - 53))))"
  unfolding round_to_double_def Let_def ..

lemma float_sub_unfold:
  "float_sub (Double m1 e1) (Double m2 e2) =
     round_to_double (m1 * 2 ^ nat (e1 - min e1 e2) - m2 * 2 ^ nat (e2 - min e1 e2)) (min e1 e2)"
  unfolding float_sub_def Let_def by simp

lemmas float_defs = float_sub_unfold float_less_def round_to_double_unfold round_half_even_unfold
  file_age_def dval_def is_double_def bits_0 bits_1 bits_One bits_Bit0 bits_Bit1

lemmas run_defs = dict_get_def bind_def send_def http_get_def get_postid_uncached_def get_postid_def
  ajax_request_def get_episode_embed_def extract_episode_number_def episode_number_def episode_result_def
  process_episode_link_def links_of_def get_all_episodes_def upload_request_def upload_attempt_def
  upload_image_from_url_def get_bg_image_def extract_info_def makedirs_def write_file_def data_to_save_def
  scrape_and_save_def ADMIN_URL_def IMG_BB_API_KEY_def MAX_WORKERS_def dirname_def Let_def

lemma demo_episode_eq:
  "demo_episode n link =
     episode_result n link (JStr ''https://video.example/e'') (JStr ''iframe'')"
  by (simp add: demo_episode_def episode_result_def)


section \<open>The name of the cache file\<close>

lemma match_seasons_here_sound:
  assumes "match_seasons_here s = Some g"
  shows "\<exists>post. s = seasons_prefix @ g @ ''/'' @ post \<and> g \<noteq> [] \<and> CHR ''/'' \<notin> set g"
proof -
  let ?r = "drop (length seasons_prefix) s"
  let ?P = "\<lambda>c. c \<noteq> CHR ''/''"
  from assms have sw: "startswith s seasons_prefix"
    and g: "g = takeWhile ?P ?r" and ne: "g \<noteq> []" and rest: "dropWhile ?P ?r \<noteq> []"
    by (auto simp: match_seasons_here_def Let_def split: if_splits)
  from sw have s: "s = seasons_prefix @ ?r"
    unfolding startswith_def by (metis append_take_drop_id)
  from rest have "\<not> ?P (hd (dropWhile ?P ?r))" by (rule hd_dropWhile)
  with rest obtain post where d: "dropWhile ?P ?r = CHR ''/'' # post"
    by (cases "dropWhile ?P ?r") auto
  have "?r = g @ dropWhile ?P ?r" using g by simp
  with d s have "s = seasons_prefix @ g @ ''/'' @ post" by simp
  moreover have "CHR ''/'' \<notin> set g" using g by (auto dest: set_takeWhileD)
  ultimately show ?thesis using ne by blast
qed

lemma match_seasons_here_complete:
  assumes "name \<noteq> []" "CHR ''/'' \<notin> set name"
  shows "match_seasons_here (seasons_prefix @ name @ ''/'' @ post) = Some name"
proof -
  let ?P = "\<lambda>c. c \<noteq> CHR ''/''"
  have tw: "takeWhile ?P (name @ CHR ''/'' # post) = name"
    using assms(2) by (subst takeWhile_append2) auto
  have dw: "dropWhile ?P (name @ CHR ''/'' # post) = CHR ''/'' # post"
    using assms(2) by (subst dropWhile_append2) auto
  show ?thesis
    using assms(1) tw dw by (simp add: match_seasons_here_def startswith_def Let_def)
qed

lemma re_search_sound: "re_search m s = Some g \<Longrightarrow> \<exists>pre suf. s = pre @ suf \<and> m suf = Some g"
proof (induction s)
  case Nil
  then show ?case by simp
next
  case (Cons c cs)
  show ?case
  proof (cases "m (c # cs)")
    case None
    with Cons obtain pre suf where "cs = pre @ suf" "m suf = Some g" by auto
    then have "c # cs = (c # pre) @ suf \<and> m suf = Some g" by simp
    then show ?thesis by blast
  next
    case (Some a)
    with Cons.prems have "c # cs = [] @ (c # cs) \<and> m (c # cs) = Some g" by simp
    then show ?thesis by blast
  qed
qed

lemma re_search_complete: "m suf = Some g \<Longrightarrow> re_search m (pre @ suf) \<noteq> None"
proof (induction pre)
  case Nil
  then show ?case by (cases suf) auto
next
  case (Cons c pre)
  then show ?case by (auto split: option.splits)
qed

lemma seasons_search_sound:
  assumes "re_search match_seasons_here url = Some g"
  shows "matches_seasons_pattern url"
proof -
  from re_search_sound [OF assms] obtain pre suf
    where u: "url = pre @ suf" and m: "match_seasons_here suf = Some g"
    by (elim exE conjE)
  from match_seasons_here_sound [OF m] obtain post
    where s: "suf = seasons_prefix @ g @ ''/'' @ post" and g: "g \<noteq> []" "CHR ''/'' \<notin> set g"
    by (elim exE conjE)
  have "url = pre @ seasons_prefix @ g @ ''/'' @ post"
    by (simp only: u s)
  with g have "url = pre @ seasons_prefix @ g @ ''/'' @ post \<and> g \<noteq> [] \<and> CHR ''/'' \<notin> set g"
    by (intro conjI)
  then show ?thesis
    unfolding matches_seasons_pattern_def by (intro exI)
qed

lemma seasons_search_complete:
  assumes "matches_seasons_pattern url"
  shows "re_search match_seasons_here url \<noteq> None"
proof -
  from assms [unfolded matches_seasons_pattern_def] obtain pre name post
    where u: "url = pre @ seasons_prefix @ name @ ''/'' @ post"
      and n: "name \<noteq> []" "CHR ''/'' \<notin> set name"
    by (elim exE conjE)
  from n have "match_seasons_here (seasons_prefix @ name @ ''/'' @ post) = Some name"
    by (rule match_seasons_here_complete)
  then have "re_search match_seasons_here (pre @ (seasons_prefix @ name @ ''/'' @ post)) \<noteq> None"
    by (rule re_search_complete)
  then show ?thesis unfolding u .
qed

lemma seasons_search_iff:
  "re_search match_seasons_here url \<noteq> None \<longleftrightarrow> matches_seasons_pattern url"
  using seasons_search_sound seasons_search_complete by blast

lemma sanitize_unknown: "sanitize_filename ''unknown_anime'' = ''unknown_anime''"
  by (simp add: sanitize_filename_def is_word_char_def)

text \<open>
  C10. A base URL that does not match the pattern \<open>https://web.animerco.org/seasons/<name>/\<close>
  is given the name \<open>unknown_anime\<close>, so every such URL is cached in the one file
  \<open>cache/unknown_anime.json\<close>, which distinct titles of this form share.
\<close>

theorem unmatched_urls_share_cache_file:
  "\<not> matches_seasons_pattern base_url \<Longrightarrow>
     get_anime_name_from_url base_url = ''unknown_anime'' \<and>
     cache_file_of base_url = ''cache/unknown_anime.json''"
  using seasons_search_iff [of base_url]
  by (simp add: get_anime_name_from_url_def cache_file_of_def sanitize_unknown)

theorem unmatched_urls_share_cache_file_witness:
  "\<not> matches_seasons_pattern ''https://web.animerco.org/animes/naruto/'' \<and>
   get_anime_name_from_url ''https://web.animerco.org/animes/naruto/'' = ''unknown_anime'' \<and>
   cache_file_of ''https://web.animerco.org/animes/naruto/'' = ''cache/unknown_anime.json''"
proof -
  have "re_search match_seasons_here ''https://web.animerco.org/animes/naruto/'' = None"
    by (simp add: match_seasons_here_def startswith_def seasons_prefix_def)
  then have h: "\<not> matches_seasons_pattern ''https://web.animerco.org/animes/naruto/''"
    using seasons_search_iff by blast
  show ?thesis
    using h unmatched_urls_share_cache_file [OF h] by simp
qed

section \<open>The guard on the URL\<close>

text \<open>
  C9. For a base URL that does not start with \<open>https://web.animerco.org/\<close>,
  \<open>scrape_and_save\<close> prints the error and returns: it sends no request, creates no
  directory and writes no file, so the file system is the one it was given.
\<close>

theorem invalid_url_is_rejected:
  "\<not> startswith base_url ''https://web.animerco.org/'' \<Longrightarrow>
     scrape_and_save w fs base_url = ([Print (Invalid_url base_url)], Inr fs)"
  by (simp add: scrape_and_save_def)

theorem invalid_url_is_rejected_witness:
  "\<not> startswith ''http://web.animerco.org/seasons/naruto/'' ''https://web.animerco.org/'' \<and>
   scrape_and_save demo_world Map.empty ''http://web.animerco.org/seasons/naruto/'' =
     ([Print (Invalid_url ''http://web.animerco.org/seasons/naruto/'')], Inr Map.empty)"
proof -
  have h: "\<not> startswith ''http://web.animerco.org/seasons/naruto/'' ''https://web.animerco.org/''"
    by (simp add: startswith_def)
  show ?thesis
    using h invalid_url_is_rejected [OF h, of demo_world Map.empty] by simp
qed

section \<open>How a run unfolds\<close>

lemma bind_Inl: "bind (t, Inl e) f = (t, Inl e)"
  by (simp add: bind_def)

lemma bind_Inr: "bind (t, Inr x) f = (t @ fst (f x), snd (f x))"
  by (simp add: bind_def split: prod.splits)

lemma demo_run: "scrape_and_save demo_world Map.empty demo_url = (demo_trace, Inr demo_fs)"
  by (simp add: demo_defs string_defs run_defs float_defs)

lemma sanitize_filename_no_slash: "CHR ''/'' \<notin> set (sanitize_filename name)"
  by (simp add: sanitize_filename_def is_word_char_def)

lemma dirname_join:
  assumes "CHR ''/'' \<notin> set b"
  shows "dirname (a @ ''/'' @ b) = a"
proof -
  have "dropWhile (\<lambda>c. c \<noteq> CHR ''/'') (rev b @ CHR ''/'' # rev a) = CHR ''/'' # rev a"
    using assms by (subst dropWhile_append2) auto
  then show ?thesis by (simp add: dirname_def)
qed

lemma dirname_cache_file: "dirname (cache_file_of base_url) = ''cache''"
proof -
  have "CHR ''/'' \<notin> set (sanitize_filename (get_anime_name_from_url base_url) @ ''.json'')"
    using sanitize_filename_no_slash by simp
  then have "dirname (''cache'' @ ''/'' @
      (sanitize_filename (get_anime_name_from_url base_url) @ ''.json'')) = ''cache''"
    by (rule dirname_join)
  then show ?thesis by (simp add: cache_file_of_def)
qed

lemma cache_file_not_dir: "cache_file_of base_url \<noteq> ''cache''"
  by (simp add: cache_file_of_def)

lemma makedirs_other:
  "makedirs w fs ''cache'' = Inr fs1 \<Longrightarrow> p \<noteq> ''cache'' \<Longrightarrow> fs1 p = fs p"
  by (auto simp: makedirs_def split: option.splits node.splits)

lemma makedirs_dir: "makedirs w fs ''cache'' = Inr fs1 \<Longrightarrow> \<exists>d. fs1 ''cache'' = Some (Dir d)"
  by (auto simp: makedirs_def split: option.splits node.splits)

lemma upload_returns: "\<exists>t v. upload_image_from_url w image_url = (t, Inr v)"
  by (simp add: upload_image_from_url_def split: prod.splits sum.splits)

lemma get_bg_image_returns: "\<exists>t v. get_bg_image w base_url = (t, Inr v)"
proof (cases "send w At_get_bg_image (http_get base_url 10)")
  case (Inl e)
  then show ?thesis by (simp add: get_bg_image_def)
next
  case (Inr page)
  show ?thesis
  proof (cases "select_bg_image w page")
    case None
    with Inr show ?thesis by (simp add: get_bg_image_def)
  next
    case (Some a)
    obtain t v where "upload_image_from_url w (the a) = (t, Inr v)"
      using upload_returns by blast
    with Inr Some show ?thesis
      by (cases a) (simp_all add: get_bg_image_def bind_Inr)
  qed
qed

lemma extract_info_returns: "\<exists>t v. extract_info w base_url = (t, Inr v)"
  by (simp add: extract_info_def Let_def split: sum.splits option.splits)

lemma get_all_episodes_returns: "\<exists>t r. get_all_episodes w base_url = (t, Inr r)"
  by (simp add: get_all_episodes_def Let_def split: sum.splits prod.splits)

lemma scrape_cached:
  assumes "startswith base_url ''https://web.animerco.org/''"
    and "makedirs w fs ''cache'' = Inr fs1"
    and "fresh w fs1 (cache_file_of base_url)"
  shows "scrape_and_save w fs base_url =
           ([Print (Using_cached_data (cache_file_of base_url))], Inr fs1)"
  using assms unfolding fresh_def file_age_def
  by (simp add: scrape_and_save_def bind_Inr cache_file_of_def Let_def)

lemma scrape_raises:
  assumes "startswith base_url ''https://web.animerco.org/''"
    and "makedirs w fs ''cache'' = Inl e"
  shows "scrape_and_save w fs base_url = ([], Inl e)"
  using assms by (simp add: scrape_and_save_def bind_Inl)

lemma scrape_fetches:
  assumes "startswith base_url ''https://web.animerco.org/''"
    and "makedirs w fs ''cache'' = Inr fs1"
    and "\<not> fresh w fs1 (cache_file_of base_url)"
    and "get_all_episodes w base_url = (t1, Inr episodes)"
    and "get_bg_image w base_url = (t2, Inr img_url)"
    and "extract_info w base_url = (t3, Inr info)"
  shows "scrape_and_save w fs base_url =
           (case episodes of
              None \<Rightarrow>
                (Print (Scraping_data_for base_url) # Executor 3 # t1 @ t2 @ t3 @
                   [Print (Failed_to_fetch_episodes base_url)], Inr fs1)
            | Some eps \<Rightarrow>
                (case write_file w fs1 (cache_file_of base_url)
                        (json_dump w (data_to_save base_url img_url info eps)) of
                   Inl e \<Rightarrow> (Print (Scraping_data_for base_url) # Executor 3 # t1 @ t2 @ t3, Inl e)
                 | Inr fs2 \<Rightarrow>
                     (Print (Scraping_data_for base_url) # Executor 3 # t1 @ t2 @ t3 @
                        [Print (Successfully_scraped base_url (cache_file_of base_url)),
                         Print Process_completed], Inr fs2)))"
  using assms unfolding fresh_def file_age_def
  by (simp add: scrape_and_save_def bind_Inr bind_Inl cache_file_of_def
      Let_def split: option.splits sum.splits)

lemma write_file_existing:
  assumes "fs p = Some (File t c')"
  shows "write_file w fs p c = Inr (fs(p \<mapsto> File (time_at_write w) c))"
  using assms by (simp add: write_file_def)

lemma write_file_new:
  assumes "fs p = None" and "fs (dirname p) = Some (Dir d)"
  shows "write_file w fs p c =
           Inr (fs(dirname p \<mapsto> Dir (time_at_open w), p \<mapsto> File (time_at_write w) c))"
  using assms by (simp add: write_file_def)

lemma stale_run:
  "scrape_and_save demo_world stale_fs demo_url =
     (demo_trace,
      Inr (stale_fs(''cache/naruto.json'' \<mapsto> File (Double 100009 0) (demo_dump demo_record))))"
  by (simp add: demo_defs string_defs run_defs float_defs)

section \<open>The freshness of the cache\<close>

text \<open>The comparison of a finite float with an integer literal is the exact one.\<close>

lemma float_less_exact:
  "float_less (Finite (Double m e)) c \<longleftrightarrow> dval (Double m e) < of_int c"
proof (cases "0 \<le> e")
  case True
  then show ?thesis
    unfolding float_less_def dval_def by (simp only: float.case double.case if_True of_int_less_iff)
next
  case False
  have pos: "(0 :: rat) < of_int (2 ^ nat (- e))" by simp
  have "of_int m / of_int (2 ^ nat (- e)) < (of_int c :: rat) \<longleftrightarrow>
          (of_int m :: rat) < of_int c * of_int (2 ^ nat (- e))"
    using pos by (rule pos_divide_less_eq)
  also have "\<dots> \<longleftrightarrow> (of_int m :: rat) < of_int (c * 2 ^ nat (- e))"
    by (simp only: of_int_mult)
  also have "\<dots> \<longleftrightarrow> m < c * 2 ^ nat (- e)"
    by (rule of_int_less_iff)
  finally show ?thesis
    using False unfolding float_less_def dval_def
    by (simp only: float.case double.case if_False)
qed

lemma edge_run:
  "scrape_and_save edge_world edge_fs demo_url =
     (demo_trace,
      Inr (edge_fs(''cache/naruto.json'' \<mapsto> File (Double 100009 0) (demo_dump demo_record))))"
  by (simp add: demo_defs string_defs run_defs float_defs)

text \<open>
  C2. For a valid base URL, when the cache file of the title exists and its age as the code
  computes it, the binary64 difference of the clock reading and the modification time, is
  below 86400 at the check, \<open>scrape_and_save\<close> returns after the one print, having sent no
  request and left the file system as it was (an existing cache file lies in the directory
  \<open>cache\<close>, which therefore exists); and a run that sends any request found the cache file
  absent or its computed age not below 86400.
\<close>

theorem fresh_cache_is_reused:
  assumes "startswith base_url ''https://web.animerco.org/''"
  shows "(\<forall>d nd. fs ''cache'' = Some (Dir d) \<and> fs (cache_file_of base_url) = Some nd \<and>
            float_less (float_sub (time_at_check w) (mtime nd)) 86400 \<longrightarrow>
            scrape_and_save w fs base_url =
              ([Print (Using_cached_data (cache_file_of base_url))], Inr fs)) \<and>
         (\<forall>rq. Request rq \<in> set (fst (scrape_and_save w fs base_url)) \<longrightarrow>
            fs (cache_file_of base_url) = None \<or>
            (\<exists>nd. fs (cache_file_of base_url) = Some nd \<and>
                  \<not> float_less (float_sub (time_at_check w) (mtime nd)) 86400))"
proof (intro conjI allI impI)
  fix d nd
  assume h: "fs ''cache'' = Some (Dir d) \<and> fs (cache_file_of base_url) = Some nd \<and>
               float_less (float_sub (time_at_check w) (mtime nd)) 86400"
  then have "makedirs w fs ''cache'' = Inr fs" by (simp add: makedirs_def)
  moreover from h have "fresh w fs (cache_file_of base_url)"
    by (simp add: fresh_def file_age_def)
  ultimately show "scrape_and_save w fs base_url =
      ([Print (Using_cached_data (cache_file_of base_url))], Inr fs)"
    using assms by (rule scrape_cached [rotated])
next
  fix rq
  assume rq: "Request rq \<in> set (fst (scrape_and_save w fs base_url))"
  show "fs (cache_file_of base_url) = None \<or>
          (\<exists>nd. fs (cache_file_of base_url) = Some nd \<and>
                \<not> float_less (float_sub (time_at_check w) (mtime nd)) 86400)"
  proof (cases "makedirs w fs ''cache''")
    case (Inl e)
    with assms rq show ?thesis by (simp add: scrape_raises)
  next
    case (Inr fs1)
    have same: "fs1 (cache_file_of base_url) = fs (cache_file_of base_url)"
      using Inr cache_file_not_dir by (rule makedirs_other)
    have "\<not> fresh w fs1 (cache_file_of base_url)"
    proof
      assume "fresh w fs1 (cache_file_of base_url)"
      with assms Inr rq show False by (simp add: scrape_cached)
    qed
    with same show ?thesis
      by (cases "fs (cache_file_of base_url)") (simp_all add: fresh_def file_age_def)
  qed
qed

theorem fresh_cache_is_reused_witness:
  "startswith demo_url ''https://web.animerco.org/'' \<and>
   demo_fs ''cache'' = Some (Dir (Double 100008 0)) \<and>
   demo_fs (cache_file_of demo_url) = Some (File (Double 100009 0) (demo_dump demo_record)) \<and>
   float_less (float_sub (time_at_check demo_later)
                 (mtime (File (Double 100009 0) (demo_dump demo_record)))) 86400 \<and>
   scrape_and_save demo_later demo_fs demo_url =
     ([Print (Using_cached_data (cache_file_of demo_url))], Inr demo_fs) \<and>
   Request (http_get demo_url 10) \<in> set (fst (scrape_and_save demo_world Map.empty demo_url)) \<and>
   Map.empty (cache_file_of demo_url) = (None :: node option)"
proof -
  have v: "startswith demo_url ''https://web.animerco.org/''"
    by (simp add: demo_defs string_defs)
  have cf: "cache_file_of demo_url = ''cache/naruto.json''"
    by (simp add: demo_defs string_defs Let_def)
  have h: "demo_fs ''cache'' = Some (Dir (Double 100008 0)) \<and>
           demo_fs (cache_file_of demo_url) = Some (File (Double 100009 0) (demo_dump demo_record)) \<and>
           float_less (float_sub (time_at_check demo_later)
                         (mtime (File (Double 100009 0) (demo_dump demo_record)))) 86400"
    by (simp add: cf) (simp add: demo_defs float_defs)
  have r: "Request (http_get demo_url 10) \<in> set (fst (scrape_and_save demo_world Map.empty demo_url))"
    by (simp add: demo_run demo_trace_def)
  from fresh_cache_is_reused [OF v, of demo_fs demo_later] h
  have "scrape_and_save demo_later demo_fs demo_url =
     ([Print (Using_cached_data (cache_file_of demo_url))], Inr demo_fs)"
    by blast
  moreover from fresh_cache_is_reused [OF v, of Map.empty demo_world] r
  have "Map.empty (cache_file_of demo_url) = (None :: node option)" by simp
  ultimately show ?thesis using v h r by simp
qed

text \<open>
  Read with the exact age, the sentence fails: one day and two nanoseconds after the epoch,
  with a cache file modified two nanoseconds after the epoch, both readings are doubles and
  the file is less than 86400 seconds old, but the float difference rounds to 86400.0 and
  the site is fetched again.
\<close>

theorem exact_age_below_a_day_counterexample:
  "startswith demo_url ''https://web.animerco.org/'' \<and>
   edge_fs ''cache'' = Some (Dir edge_mtime) \<and>
   edge_fs (cache_file_of demo_url) = Some (File edge_mtime ''old'') \<and>
   time_at_check edge_world = edge_clock \<and>
   is_double edge_clock \<and> is_double edge_mtime \<and>
   dval edge_clock - dval edge_mtime < 86400 \<and>
   float_sub edge_clock edge_mtime = Finite (Double (86400 * 2 ^ 36) (- 36)) \<and>
   dval (Double (86400 * 2 ^ 36) (- 36)) = 86400 \<and>
   Request (http_get demo_url 10) \<in> set (fst (scrape_and_save edge_world edge_fs demo_url)) \<and>
   snd (scrape_and_save edge_world edge_fs demo_url) \<noteq> Inr edge_fs"
proof -
  have v: "startswith demo_url ''https://web.animerco.org/''"
    by (simp add: demo_defs string_defs)
  have cf: "cache_file_of demo_url = ''cache/naruto.json''"
    by (simp add: demo_defs string_defs Let_def)
  have f: "edge_fs ''cache'' = Some (Dir edge_mtime) \<and>
           edge_fs (cache_file_of demo_url) = Some (File edge_mtime ''old'')"
    by (simp add: cf) (simp add: edge_fs_def)
  have c: "time_at_check edge_world = edge_clock"
    by (simp add: edge_world_def)
  have d: "is_double edge_clock \<and> is_double edge_mtime"
    by (simp add: edge_clock_def edge_mtime_def is_double_def)
  have a: "dval edge_clock - dval edge_mtime < 86400"
    by (simp add: edge_clock_def edge_mtime_def dval_def)
  have s: "float_sub edge_clock edge_mtime = Finite (Double (86400 * 2 ^ 36) (- 36))"
    by (simp add: edge_clock_def edge_mtime_def float_defs)
  have e: "dval (Double (86400 * 2 ^ 36) (- 36)) = 86400"
    by (simp add: dval_def)
  have r: "Request (http_get demo_url 10) \<in> set (fst (scrape_and_save edge_world edge_fs demo_url))"
    by (simp add: edge_run demo_trace_def)
  have n: "snd (scrape_and_save edge_world edge_fs demo_url) \<noteq> Inr edge_fs"
  proof
    assume "snd (scrape_and_save edge_world edge_fs demo_url) = Inr edge_fs"
    then have "edge_fs(''cache/naruto.json'' \<mapsto> File (Double 100009 0) (demo_dump demo_record)) =
                edge_fs"
      by (simp add: edge_run)
    then have "(edge_fs(''cache/naruto.json'' \<mapsto> File (Double 100009 0) (demo_dump demo_record)))
                 ''cache/naruto.json'' = edge_fs ''cache/naruto.json''"
      by (rule arg_cong)
    then show False by (simp add: edge_fs_def edge_mtime_def)
  qed
  from v f c d a s e r n show ?thesis by (simp only: simp_thms)
qed

section \<open>The write of the cache file\<close>

lemma demo_episodes:
  "snd (get_all_episodes demo_world demo_url) =
     Inr (Some [(''5'', demo_episode 5 ''/ep-5''), (''2'', demo_episode 2 ''/ep-2-x'')])"
  by (simp add: demo_defs string_defs run_defs)

lemma demo_image: "snd (get_bg_image demo_world demo_url) = Inr (JStr ''https://i.ibb.co/x.jpg'')"
  by (simp add: demo_defs string_defs run_defs)

lemma demo_extract_info: "snd (extract_info demo_world demo_url) = Inr demo_info"
  by (simp add: demo_defs string_defs run_defs)



section \<open>Deadlines of the requests\<close>

lemma http_get_ok: "request_ok (http_get url 10)"
  by (simp add: request_ok_def http_get_def)

lemma ajax_request_ok: "request_ok (ajax_request l v)"
  by (simp add: request_ok_def ajax_request_def ADMIN_URL_def)

lemma upload_request_ok: "request_ok (upload_request img)"
  by (simp add: request_ok_def upload_request_def)

lemma bind_ok:
  assumes "list_all event_ok (fst m)" and "\<And>x. list_all event_ok (fst (f x))"
  shows "list_all event_ok (fst (bind m f))"
proof (cases m)
  case (Pair t r)
  show ?thesis
  proof (cases r)
    case (Inl e)
    with Pair assms(1) show ?thesis by (simp add: bind_Inl)
  next
    case (Inr x)
    with Pair assms(1) assms(2) [of x] show ?thesis by (simp add: bind_Inr)
  qed
qed

lemma get_postid_ok: "list_all event_ok (fst (get_postid w url))"
  by (simp add: get_postid_def get_postid_uncached_def Let_def http_get_ok
      split: option.splits sum.splits)

lemma get_episode_embed_ok: "list_all event_ok (fst (get_episode_embed w url))"
  unfolding get_episode_embed_def
  by (rule bind_ok [OF get_postid_ok])
     (simp add: Let_def ajax_request_ok split: option.splits sum.splits)

lemma process_episode_link_ok: "list_all event_ok (fst (process_episode_link w link index))"
  unfolding process_episode_link_def
  apply (rule bind_ok)
   apply simp
  apply (rule bind_ok [OF get_episode_embed_ok])
  apply (simp add: Let_def split: option.splits sum.splits json.splits)
  done

lemma collect_ok: "list_all event_ok (fst (collect w links order acc))"
proof (induction order arbitrary: acc)
  case Nil
  show ?case by simp
next
  case (Cons i order)
  have p: "list_all event_ok (fst (process_episode_link w (links ! i) (i + 1)))"
    by (rule process_episode_link_ok)
  show ?case
  proof (cases "process_episode_link w (links ! i) (i + 1)")
    case (Pair t r)
    with p have t: "list_all event_ok t" by simp
    show ?thesis
    proof (cases r)
      case (Inl e)
      with Pair t Cons.IH [of acc] show ?thesis
        by (cases "collect w links order acc") simp
    next
      case (Inr res)
      show ?thesis
      proof (cases res)
        case None
        with Pair Inr t Cons.IH [of acc] show ?thesis
          by (cases "collect w links order acc") simp
      next
        case (Some kv)
        obtain k v where kv: "kv = (k, v)" by (cases kv)
        with Pair Inr Some t Cons.IH [of "AList.update k v acc"] show ?thesis
          by (cases "collect w links order (AList.update k v acc)") simp
      qed
    qed
  qed
qed

lemma get_all_episodes_ok: "list_all event_ok (fst (get_all_episodes w base_url))"
proof (cases "send w At_get_all_episodes (http_get base_url 10)")
  case (Inl e)
  then show ?thesis by (simp add: get_all_episodes_def http_get_ok)
next
  case (Inr page)
  let ?links = "links_of w page"
  let ?order = "filter (\<lambda>i. i < length ?links) (as_completed w)"
  have "list_all event_ok (fst (collect w ?links ?order []))" by (rule collect_ok)
  with Inr show ?thesis
    by (cases "collect w ?links ?order []") (simp add: get_all_episodes_def Let_def http_get_ok)
qed

lemma upload_attempt_ok: "list_all event_ok (fst (upload_attempt w (upload_request img)))"
  by (simp add: upload_attempt_def bind_def upload_request_ok
      split: sum.splits option.splits prod.splits)

lemma upload_image_ok: "list_all event_ok (fst (upload_image_from_url w img))"
proof (cases "upload_attempt w (upload_request img)")
  case (Pair t r)
  with upload_attempt_ok [of w img] show ?thesis
    by (cases r) (simp_all add: upload_image_from_url_def)
qed

lemma get_bg_image_ok: "list_all event_ok (fst (get_bg_image w base_url))"
  using upload_image_ok [of w]
  by (simp add: get_bg_image_def Let_def bind_Inr http_get_ok split: sum.splits option.splits)

lemma extract_info_ok: "list_all event_ok (fst (extract_info w base_url))"
  by (simp add: extract_info_def Let_def http_get_ok split: sum.splits option.splits)

lemma scrape_and_save_ok: "list_all event_ok (fst (scrape_and_save w fs base_url))"
proof (cases "startswith base_url ''https://web.animerco.org/''")
  case False
  then show ?thesis by (simp add: scrape_and_save_def)
next
  case True
  show ?thesis
  proof (cases "makedirs w fs ''cache''")
    case (Inl e)
    with True show ?thesis by (simp add: scrape_raises)
  next
    case (Inr fs1)
    show ?thesis
    proof (cases "fresh w fs1 (cache_file_of base_url)")
      case True
      with \<open>startswith base_url ''https://web.animerco.org/''\<close> Inr show ?thesis
        by (simp add: scrape_cached)
    next
      case False
      obtain t1 r1 where t1: "get_all_episodes w base_url = (t1, Inr r1)"
        using get_all_episodes_returns by blast
      obtain t2 r2 where t2: "get_bg_image w base_url = (t2, Inr r2)"
        using get_bg_image_returns by blast
      obtain t3 r3 where t3: "extract_info w base_url = (t3, Inr r3)"
        using extract_info_returns by blast
      have "list_all event_ok t1" "list_all event_ok t2" "list_all event_ok t3"
        using get_all_episodes_ok [of w base_url] get_bg_image_ok [of w base_url]
          extract_info_ok [of w base_url] t1 t2 t3 by simp_all
      then show ?thesis
        using scrape_fetches [OF \<open>startswith base_url ''https://web.animerco.org/''\<close> Inr False t1 t2 t3]
        by (simp split: option.splits sum.splits)
    qed
  qed
qed

text \<open>
  C8, as the code has it. Every request of a run of \<open>scrape_and_save\<close> carries a
  timeout: the upload to the image host carries 15 seconds, every request to the site
  (the page fetches and the AJAX call) carries 10 seconds.
\<close>

theorem requests_carry_their_timeout:
  "Request rq \<in> set (fst (scrape_and_save w fs base_url)) \<Longrightarrow>
     req_timeout rq =
       (if req_method rq = POST \<and> req_url rq = ''https://api.imgbb.com/1/upload''
        then Some 15 else Some 10)"
proof -
  assume "Request rq \<in> set (fst (scrape_and_save w fs base_url))"
  moreover have "\<forall>e \<in> set (fst (scrape_and_save w fs base_url)). event_ok e"
    using scrape_and_save_ok [of w fs base_url] by (simp add: list_all_iff)
  ultimately have "event_ok (Request rq)" by blast
  then show ?thesis by (simp add: request_ok_def)
qed

theorem requests_carry_their_timeout_witness:
  "Request (upload_request ''https://img.example/bg.jpg'')
     \<in> set (fst (scrape_and_save demo_world Map.empty demo_url)) \<and>
   req_timeout (upload_request ''https://img.example/bg.jpg'') = Some 15 \<and>
   Request (ajax_request ''/ep-5'' ''77'')
     \<in> set (fst (scrape_and_save demo_world Map.empty demo_url)) \<and>
   req_timeout (ajax_request ''/ep-5'' ''77'') = Some 10"
proof -
  have a: "Request (upload_request ''https://img.example/bg.jpg'')
     \<in> set (fst (scrape_and_save demo_world Map.empty demo_url))"
    by (simp add: demo_run demo_trace_def)
  have b: "Request (ajax_request ''/ep-5'' ''77'')
     \<in> set (fst (scrape_and_save demo_world Map.empty demo_url))"
    by (simp add: demo_run demo_trace_def)
  show ?thesis
    using a b requests_carry_their_timeout [OF a] requests_carry_their_timeout [OF b]
    by (simp add: upload_request_def ajax_request_def ADMIN_URL_def)
qed

text \<open>
  C8 as stated fails: in the demo run the fetch of the title page is sent with one
  deadline and the upload of the image with another.
\<close>

theorem one_fixed_timeout_counterexample:
  "Request (http_get demo_url 10) \<in> set (fst (scrape_and_save demo_world Map.empty demo_url)) \<and>
   Request (upload_request ''https://img.example/bg.jpg'')
     \<in> set (fst (scrape_and_save demo_world Map.empty demo_url)) \<and>
   req_timeout (http_get demo_url 10) \<noteq> req_timeout (upload_request ''https://img.example/bg.jpg'')"
  by (simp add: demo_run demo_trace_def http_get_def upload_request_def)

section \<open>The post identifier\<close>

lemma get_postid_result:
  assumes "cached_postid w url = None"
  shows "snd (get_postid w url) =
           (case send w At_get_postid (http_get url 10) of
              Inl e \<Rightarrow> Inr None
            | Inr page \<Rightarrow>
                (case find_postid_input w page of
                   None \<Rightarrow> Inr None
                 | Some None \<Rightarrow> Inl KeyError
                 | Some (Some v) \<Rightarrow> Inr (Some v)))"
  using assms
  by (simp add: get_postid_def get_postid_uncached_def Let_def split: sum.splits option.splits)

lemma get_episode_embed_without_postid:
  assumes "get_postid w url = (t, Inr None)"
  shows "get_episode_embed w url = (t @ [Print (Could_not_find_postid url)], Inr None)"
  using assms by (simp add: get_episode_embed_def bind_Inr)

lemma get_episode_embed_with_postid:
  assumes "get_postid w url = (t, Inr (Some v))" and "v \<noteq> []"
  shows "Request (ajax_request url v) \<in> set (fst (get_episode_embed w url))"
  using assms by (simp add: get_episode_embed_def bind_Inr Let_def split: sum.splits)

text \<open>
  C7 fails on the code. The page of the episode \<open>/ep-5\<close> is fetched and holds a hidden
  input named \<open>postid\<close> that has no \<open>value\<close> attribute: \<open>get_postid\<close> neither returns a
  value nor \<open>None\<close> but raises \<open>KeyError\<close>, and \<open>get_episode_embed\<close> does not return
  \<open>None\<close> for the missing identifier but lets the exception pass.
\<close>

theorem get_postid_raises_without_value:
  "get_postid valueless_world ''/ep-5'' = ([Request (http_get ''/ep-5'' 10)], Inl KeyError) \<and>
   get_episode_embed valueless_world ''/ep-5'' = ([Request (http_get ''/ep-5'' 10)], Inl KeyError)"
  by (simp add: valueless_world_def demo_defs run_defs)

section \<open>The loop over the completed futures\<close>

lemma collect_step:
  "snd (collect w links (i # order) acc) =
     (case outcome w links i of
        Inr (Some (k, v)) \<Rightarrow> snd (collect w links order (AList.update k v acc))
      | _ \<Rightarrow> snd (collect w links order acc))"
proof (cases "process_episode_link w (links ! i) (i + 1)")
  case (Pair t r)
  show ?thesis
  proof (cases r)
    case (Inl e)
    with Pair show ?thesis
      by (cases "collect w links order acc") (simp add: outcome_def)
  next
    case (Inr res)
    show ?thesis
    proof (cases res)
      case None
      with Pair Inr show ?thesis
        by (cases "collect w links order acc") (simp add: outcome_def)
    next
      case (Some kv)
      obtain k v where kv: "kv = (k, v)" by (cases kv)
      with Pair Inr Some show ?thesis
        by (cases "collect w links order (AList.update k v acc)") (simp add: outcome_def)
    qed
  qed
qed


lemma collect_map_of:
  "map_of (snd (collect w links order acc)) = map_of acc ++ map_of (rev (successes w links order))"
proof (induction order arbitrary: acc)
  case Nil
  show ?case by simp
next
  case (Cons i order)
  show ?case
  proof (cases "outcome w links i")
    case (Inl e)
    with Cons.IH [of acc] show ?thesis by (simp del: collect.simps add: collect_step)
  next
    case (Inr res)
    show ?thesis
    proof (cases res)
      case None
      with Inr Cons.IH [of acc] show ?thesis by (simp del: collect.simps add: collect_step)
    next
      case (Some kv)
      obtain k v where kv: "kv = (k, v)" by (cases kv)
      have "map_of (snd (collect w links (i # order) acc)) =
              map_of (AList.update k v acc) ++ map_of (rev (successes w links order))"
        using Inr Some kv Cons.IH [of "AList.update k v acc"] by (simp del: collect.simps add: collect_step)
      also have "\<dots> = (map_of acc)(k \<mapsto> v) ++ map_of (rev (successes w links order))"
        by (simp add: update_conv')
      also have "\<dots> = map_of acc ++ ([k \<mapsto> v] ++ map_of (rev (successes w links order)))"
        by (simp add: map_add_assoc [symmetric])
      also have "[k \<mapsto> v] ++ map_of (rev (successes w links order)) =
                   map_of (rev (successes w links (i # order)))"
        using Inr Some kv by simp
      finally show ?thesis .
    qed
  qed
qed

lemma collect_distinct:
  "distinct (map fst acc) \<Longrightarrow> distinct (map fst (snd (collect w links order acc)))"
proof (induction order arbitrary: acc)
  case Nil
  then show ?case by simp
next
  case (Cons i order)
  show ?case
  proof (cases "outcome w links i")
    case (Inl e)
    with Cons show ?thesis by (simp del: collect.simps add: collect_step)
  next
    case (Inr res)
    show ?thesis
    proof (cases res)
      case None
      with Inr Cons show ?thesis by (simp del: collect.simps add: collect_step)
    next
      case (Some kv)
      obtain k v where kv: "kv = (k, v)" by (cases kv)
      have "distinct (map fst (AList.update k v acc))"
        using Cons.prems by (simp add: distinct_update)
      then have "distinct (map fst (snd (collect w links order (AList.update k v acc))))"
        by (rule Cons.IH)
      with Inr Some kv show ?thesis by (simp del: collect.simps add: collect_step)
    qed
  qed
qed

lemma successes_sound:
  "(k, v) \<in> set (successes w links order) \<Longrightarrow>
     \<exists>i \<in> set order. outcome w links i = Inr (Some (k, v))"
proof (induction order)
  case Nil
  then show ?case by simp
next
  case (Cons i order)
  then show ?case
    by (cases "outcome w links i") (auto split: option.splits)
qed

lemma successes_append:
  "successes w links (xs @ ys) = successes w links xs @ successes w links ys"
  by (induction xs) (auto split: sum.splits option.splits)

lemma successes_no_key:
  assumes "\<forall>j \<in> set ys. \<forall>r'. outcome w links j \<noteq> Inr (Some (k, r'))"
  shows "k \<notin> fst ` set (successes w links ys)"
proof
  assume "k \<in> fst ` set (successes w links ys)"
  then obtain v where "(k, v) \<in> set (successes w links ys)" by auto
  then obtain j where "j \<in> set ys" "outcome w links j = Inr (Some (k, v))"
    using successes_sound by blast
  with assms show False by blast
qed

lemma last_success_wins:
  assumes "order = xs @ i # ys"
    and "outcome w links i = Inr (Some (k, r))"
    and "\<forall>j \<in> set ys. \<forall>r'. outcome w links j \<noteq> Inr (Some (k, r'))"
  shows "map_of (snd (collect w links order acc)) k = Some r"
proof -
  have s: "successes w links order =
             successes w links xs @ (k, r) # successes w links ys"
    using assms(1,2) by (simp add: successes_append)
  have "map_of (rev (successes w links ys)) k = None"
    using successes_no_key [OF assms(3)] by (simp add: map_of_eq_None_iff)
  then have "map_of (rev (successes w links order)) k = Some r"
    by (simp add: s map_add_def)
  then show ?thesis by (simp add: collect_map_of map_add_def)
qed

lemma collect_entries:
  assumes "map_of (snd (collect w links order [])) k = Some v"
  shows "\<exists>i \<in> set order. outcome w links i = Inr (Some (k, v))"
proof -
  from assms have "map_of (rev (successes w links order)) k = Some v"
    by (simp add: collect_map_of)
  then have "(k, v) \<in> set (successes w links order)"
    by (auto dest: map_of_SomeD)
  then show ?thesis by (rule successes_sound)
qed

section \<open>Keys and links\<close>

lemma digit_val_digit_char: "d < 10 \<Longrightarrow> digit_val (digit_char d) = d"
proof -
  assume "d < 10"
  then have "d \<in> {0, 1, 2, 3, 4, 5, 6, 7, 8, 9}" by auto
  then show ?thesis by (auto simp: digit_val_def digit_char_def)
qed

lemma int_of_digits_snoc: "int_of_digits (ds @ [c]) = 10 * int_of_digits ds + digit_val c"
  by (simp add: int_of_digits_def)

lemma int_of_digits_str_nat: "int_of_digits (str_nat n) = n"
proof (induction n rule: str_nat.induct)
  case (1 n)
  show ?case
  proof (cases "n < 10")
    case True
    then show ?thesis
      by (subst str_nat.simps) (simp add: int_of_digits_def digit_val_digit_char)
  next
    case False
    then have "int_of_digits (str_nat n) =
                 10 * int_of_digits (str_nat (n div 10)) + digit_val (digit_char (n mod 10))"
      by (subst str_nat.simps) (simp add: int_of_digits_snoc)
    with 1 False show ?thesis by (simp add: digit_val_digit_char)
  qed
qed

lemma str_nat_inject: "str_nat m = str_nat n \<longleftrightarrow> m = n"
  by (metis int_of_digits_str_nat)

lemma unique_loop_invariant:
  assumes "distinct unique_links" and "seen_urls = set unique_links"
  shows "distinct (fst (unique_loop links (unique_links, seen_urls))) \<and>
         set (fst (unique_loop links (unique_links, seen_urls))) = set unique_links \<union> set links"
  using assms
proof (induction links arbitrary: unique_links seen_urls)
  case Nil
  then show ?case by simp
next
  case (Cons link rest)
  show ?case
  proof (cases "link \<in> seen_urls")
    case True
    with Cons.IH [of unique_links seen_urls] Cons.prems show ?thesis by auto
  next
    case False
    with Cons.prems have "distinct (unique_links @ [link])"
      and "insert link seen_urls = set (unique_links @ [link])" by auto
    from Cons.IH [OF this] False show ?thesis by auto
  qed
qed

lemma links_of_distinct: "distinct (links_of w page)"
  using unique_loop_invariant [of "[]" "{}"] by (simp add: links_of_def)

lemma links_of_set: "set (links_of w page) = set (select_episode_links w page)"
  using unique_loop_invariant [of "[]" "{}"] by (simp add: links_of_def)

lemma process_episode_link_success:
  assumes "snd (process_episode_link w link index) = Inr (Some (k, v))"
  shows "\<exists>n embed_url embed_type.
           episode_number w link index = Inr n \<and> k = str_nat n \<and>
           v = episode_result n link embed_url embed_type \<and> truthy embed_url"
proof (cases "episode_number w link index")
  case (Inl e)
  with assms show ?thesis by (simp add: process_episode_link_def bind_Inl)
next
  case (Inr n)
  obtain t r where g: "get_episode_embed w link = (t, r)" by (cases "get_episode_embed w link")
  show ?thesis
  proof (cases r)
    case (Inl e)
    with assms Inr g show ?thesis by (simp add: process_episode_link_def bind_Inr bind_Inl)
  next
    case (Inr embed_info)
    with assms \<open>episode_number w link index = Inr n\<close> g show ?thesis
      by (auto simp: process_episode_link_def bind_Inr Let_def
          split: option.splits if_splits sum.splits json.splits)
  qed
qed

section \<open>Results and their episodes\<close>

lemma executors_of_append: "executors_of (a @ b) = executors_of a @ executors_of b"
  by (induction a rule: executors_of.induct) simp_all

lemma bind_no_executor:
  assumes "executors_of (fst m) = []" and "\<And>x. executors_of (fst (f x)) = []"
  shows "executors_of (fst (bind m f)) = []"
proof (cases m)
  case (Pair t r)
  show ?thesis
  proof (cases r)
    case (Inl e)
    with Pair assms(1) show ?thesis by (simp add: bind_Inl)
  next
    case (Inr x)
    with Pair assms(1) assms(2) [of x] show ?thesis by (simp add: bind_Inr executors_of_append)
  qed
qed

lemma get_postid_no_executor: "executors_of (fst (get_postid w url)) = []"
  by (simp add: get_postid_def get_postid_uncached_def Let_def split: option.splits sum.splits)

lemma get_episode_embed_no_executor: "executors_of (fst (get_episode_embed w url)) = []"
  unfolding get_episode_embed_def
  by (rule bind_no_executor [OF get_postid_no_executor])
     (simp add: Let_def split: option.splits sum.splits)

lemma process_episode_link_no_executor:
  "executors_of (fst (process_episode_link w link index)) = []"
  unfolding process_episode_link_def
  apply (rule bind_no_executor)
   apply simp
  apply (rule bind_no_executor [OF get_episode_embed_no_executor])
  apply (simp add: Let_def split: option.splits sum.splits json.splits)
  done

lemma collect_no_executor: "executors_of (fst (collect w links order acc)) = []"
proof (induction order arbitrary: acc)
  case Nil
  show ?case by simp
next
  case (Cons i order)
  have p: "executors_of (fst (process_episode_link w (links ! i) (i + 1))) = []"
    by (rule process_episode_link_no_executor)
  show ?case
  proof (cases "process_episode_link w (links ! i) (i + 1)")
    case (Pair t r)
    with p have t: "executors_of t = []" by simp
    show ?thesis
    proof (cases r)
      case (Inl e)
      with Pair t Cons.IH [of acc] show ?thesis
        by (cases "collect w links order acc") (simp add: executors_of_append)
    next
      case (Inr res)
      show ?thesis
      proof (cases res)
        case None
        with Pair Inr t Cons.IH [of acc] show ?thesis
          by (cases "collect w links order acc") (simp add: executors_of_append)
      next
        case (Some kv)
        obtain k v where kv: "kv = (k, v)" by (cases kv)
        with Pair Inr Some t Cons.IH [of "AList.update k v acc"] show ?thesis
          by (cases "collect w links order (AList.update k v acc)") (simp add: executors_of_append)
      qed
    qed
  qed
qed

lemma get_all_episodes_result:
  assumes "send w At_get_all_episodes (http_get base_url 10) = Inr page"
    and "distinct (as_completed w)"
    and "set (as_completed w) = {0..<length (links_of w page)}"
  shows "\<exists>t. get_all_episodes w base_url =
           (t, Inr (Some (snd (collect w (links_of w page) (as_completed w) [])))) \<and>
           executors_of t = [MAX_WORKERS]"
proof -
  have "filter (\<lambda>i. i < length (links_of w page)) (as_completed w) = as_completed w"
    using assms(3) by (auto intro: filter_True)
  with assms(1) collect_no_executor [of w "links_of w page" "as_completed w" "[]"] show ?thesis
    by (cases "collect w (links_of w page) (as_completed w) []")
       (simp add: get_all_episodes_def Let_def)
qed

lemma field_episode_result:
  "field (episode_result n link eu ty) ''page_url'' = JStr link \<and>
   field (episode_result n link eu ty) ''episode'' = JInt (int n)"
  by (simp add: episode_result_def dict_get_def)

lemma outcome_success:
  assumes "outcome w links i = Inr (Some (k, r))"
  shows "\<exists>n. episode_number w (links ! i) (i + 1) = Inr n \<and> k = str_nat n \<and>
           field r ''page_url'' = JStr (links ! i) \<and> field r ''episode'' = JInt (int n)"
proof -
  from assms have "snd (process_episode_link w (links ! i) (i + 1)) = Inr (Some (k, r))"
    by (simp add: outcome_def)
  from process_episode_link_success [OF this] obtain n eu ty
    where "episode_number w (links ! i) (i + 1) = Inr n" "k = str_nat n"
      "r = episode_result n (links ! i) eu ty"
    by (elim exE conjE)
  then show ?thesis using field_episode_result [of n "links ! i" eu ty] by simp
qed

lemma demo_links: "links_of demo_world ''main'' = [''/ep-2-x'', ''/ep-5'']"
  by (simp add: links_of_def demo_world_def)

lemma demo_outcomes:
  "outcome demo_world [''/ep-2-x'', ''/ep-5''] 1 = Inr (Some (''5'', demo_episode 5 ''/ep-5'')) \<and>
   outcome demo_world [''/ep-2-x'', ''/ep-5''] 0 = Inr (Some (''2'', demo_episode 2 ''/ep-2-x''))"
  by (simp add: outcome_def demo_defs string_defs run_defs)





section \<open>The keys of the episodes mapping\<close>

lemma demo_numbers:
  "episode_number demo_world ''/ep-2-x'' (Suc 0) = Inr 2 \<and>
   episode_number demo_world ''/ep-5'' (Suc (Suc 0)) = Inr 5"
  by (simp add: demo_defs string_defs run_defs)

lemma fallback_links: "links_of fallback_world ''main'' = [''/x-2-y'', ''/special'']"
  by (simp add: links_of_def fallback_world_def demo_world_def)

text \<open>
  C5, as the code has it. The keys of the mapping that \<open>get_all_episodes\<close> returns are
  pairwise distinct, and each is the decimal string of the episode number derived for a
  link that was processed with success. Two successful links have the same key exactly
  when their derived numbers are equal; so when the derived numbers of the successful
  links are pairwise different, every successful link has its own entry and no record is
  overwritten.
\<close>

theorem episode_keys_are_distinct:
  assumes "send w At_get_all_episodes (http_get base_url 10) = Inr page"
    and "distinct (as_completed w)"
    and "set (as_completed w) = {0..<length (links_of w page)}"
  shows "\<exists>t eps. get_all_episodes w base_url = (t, Inr (Some eps)) \<and>
           distinct (map fst eps) \<and>
           (\<forall>k r. (k, r) \<in> set eps \<longrightarrow>
              (\<exists>i n. i < length (links_of w page) \<and>
                 outcome w (links_of w page) i = Inr (Some (k, r)) \<and>
                 episode_number w (links_of w page ! i) (i + 1) = Inr n \<and> k = str_nat n)) \<and>
           (\<forall>i j ki ri kj rj ni nj.
              outcome w (links_of w page) i = Inr (Some (ki, ri)) \<and>
              outcome w (links_of w page) j = Inr (Some (kj, rj)) \<and>
              episode_number w (links_of w page ! i) (i + 1) = Inr ni \<and>
              episode_number w (links_of w page ! j) (j + 1) = Inr nj \<longrightarrow>
              (ki = kj \<longleftrightarrow> ni = nj)) \<and>
           ((\<forall>i j. i < length (links_of w page) \<and> j < length (links_of w page) \<and> i \<noteq> j \<and>
                succeeded w (links_of w page) i \<and> succeeded w (links_of w page) j \<longrightarrow>
                episode_number w (links_of w page ! i) (i + 1) \<noteq>
                episode_number w (links_of w page ! j) (j + 1)) \<longrightarrow>
            (\<forall>i k r. i < length (links_of w page) \<and>
                outcome w (links_of w page) i = Inr (Some (k, r)) \<longrightarrow> map_of eps k = Some r))"
proof -
  let ?links = "links_of w page"
  let ?n = "length ?links"
  let ?eps = "snd (collect w ?links (as_completed w) [])"
  obtain t where run: "get_all_episodes w base_url = (t, Inr (Some ?eps))"
    using get_all_episodes_result [OF assms] by blast
  have dist: "distinct (map fst ?eps)"
    by (rule collect_distinct) simp
  have from_links: "\<forall>k r. (k, r) \<in> set ?eps \<longrightarrow>
              (\<exists>i n. i < ?n \<and> outcome w ?links i = Inr (Some (k, r)) \<and>
                 episode_number w (?links ! i) (i + 1) = Inr n \<and> k = str_nat n)"
  proof (intro allI impI)
    fix k r
    assume "(k, r) \<in> set ?eps"
    with dist have "map_of ?eps k = Some r" by simp
    then obtain i where i: "i \<in> set (as_completed w)" "outcome w ?links i = Inr (Some (k, r))"
      using collect_entries by blast
    from outcome_success [OF i(2)] obtain n
      where "episode_number w (?links ! i) (i + 1) = Inr n" "k = str_nat n" by blast
    with i assms(3) show "\<exists>i n. i < ?n \<and> outcome w ?links i = Inr (Some (k, r)) \<and>
                 episode_number w (?links ! i) (i + 1) = Inr n \<and> k = str_nat n"
      by auto
  qed
  have keys: "\<forall>i j ki ri kj rj ni nj.
              outcome w ?links i = Inr (Some (ki, ri)) \<and>
              outcome w ?links j = Inr (Some (kj, rj)) \<and>
              episode_number w (?links ! i) (i + 1) = Inr ni \<and>
              episode_number w (?links ! j) (j + 1) = Inr nj \<longrightarrow>
              (ki = kj \<longleftrightarrow> ni = nj)"
  proof (intro allI impI)
    fix i j ki ri kj rj ni nj
    assume h: "outcome w ?links i = Inr (Some (ki, ri)) \<and>
              outcome w ?links j = Inr (Some (kj, rj)) \<and>
              episode_number w (?links ! i) (i + 1) = Inr ni \<and>
              episode_number w (?links ! j) (j + 1) = Inr nj"
    from h outcome_success [of w ?links i ki ri] have "ki = str_nat ni" by auto
    moreover from h outcome_success [of w ?links j kj rj] have "kj = str_nat nj" by auto
    ultimately show "ki = kj \<longleftrightarrow> ni = nj" by (simp add: str_nat_inject)
  qed
  have all_kept: "(\<forall>i j. i < ?n \<and> j < ?n \<and> i \<noteq> j \<and>
                succeeded w ?links i \<and> succeeded w ?links j \<longrightarrow>
                episode_number w (?links ! i) (i + 1) \<noteq> episode_number w (?links ! j) (j + 1)) \<longrightarrow>
            (\<forall>i k r. i < ?n \<and> outcome w ?links i = Inr (Some (k, r)) \<longrightarrow> map_of ?eps k = Some r)"
  proof (intro allI impI)
    fix i k r
    assume apart: "\<forall>i j. i < ?n \<and> j < ?n \<and> i \<noteq> j \<and>
                succeeded w ?links i \<and> succeeded w ?links j \<longrightarrow>
                episode_number w (?links ! i) (i + 1) \<noteq> episode_number w (?links ! j) (j + 1)"
    assume h: "i < ?n \<and> outcome w ?links i = Inr (Some (k, r))"
    then have "i \<in> set (as_completed w)" using assms(3) by simp
    then obtain xs ys where o: "as_completed w = xs @ i # ys" by (auto dest: split_list)
    from h have oi: "outcome w ?links i = Inr (Some (k, r))" by simp
    from outcome_success [OF oi] obtain n
      where n: "episode_number w (?links ! i) (i + 1) = Inr n" "k = str_nat n" by blast
    have si: "succeeded w ?links i" using oi by (simp add: succeeded_def)
    have "\<forall>j \<in> set ys. \<forall>r'. outcome w ?links j \<noteq> Inr (Some (k, r'))"
    proof (intro ballI allI notI)
      fix j r'
      assume j: "j \<in> set ys" and oj: "outcome w ?links j = Inr (Some (k, r'))"
      from j o assms(2) have "j \<noteq> i" by auto
      moreover from j o assms(3) have "j < ?n" by auto
      moreover have "succeeded w ?links j" using oj by (simp add: succeeded_def)
      ultimately have ne: "episode_number w (?links ! i) (i + 1) \<noteq> episode_number w (?links ! j) (j + 1)"
        using apart h si by blast
      from outcome_success [OF oj] obtain m
        where "episode_number w (?links ! j) (j + 1) = Inr m" "k = str_nat m" by blast
      with n ne show False by (simp add: str_nat_inject)
    qed
    with o oi show "map_of ?eps k = Some r" by (rule last_success_wins)
  qed
  from run dist from_links keys all_kept show ?thesis by blast
qed

theorem episode_keys_are_distinct_witness:
  "send demo_world At_get_all_episodes (http_get demo_url 10) = Inr ''main'' \<and>
   distinct (as_completed demo_world) \<and>
   set (as_completed demo_world) = {0..<length (links_of demo_world ''main'')} \<and>
   (\<exists>t eps. get_all_episodes demo_world demo_url = (t, Inr (Some eps)) \<and>
      distinct (map fst eps) \<and>
      map_of eps ''2'' = Some (demo_episode 2 ''/ep-2-x'') \<and>
      map_of eps ''5'' = Some (demo_episode 5 ''/ep-5''))"
proof -
  let ?links = "links_of demo_world ''main''"
  have h1: "send demo_world At_get_all_episodes (http_get demo_url 10) = Inr ''main''"
    by (simp add: demo_defs run_defs)
  have h2: "distinct (as_completed demo_world)"
    by (simp add: demo_world_def)
  have ac: "as_completed demo_world = [1, 0]"
    by (simp add: demo_world_def)
  have h3: "set (as_completed demo_world) = {0..<length ?links}"
    unfolding demo_links ac by auto
  have apart: "\<forall>i j. i < length ?links \<and> j < length ?links \<and> i \<noteq> j \<and>
                succeeded demo_world ?links i \<and> succeeded demo_world ?links j \<longrightarrow>
                episode_number demo_world (?links ! i) (i + 1) \<noteq>
                episode_number demo_world (?links ! j) (j + 1)"
  proof (intro allI impI)
    fix i j :: nat
    assume "i < length ?links \<and> j < length ?links \<and> i \<noteq> j \<and>
                succeeded demo_world ?links i \<and> succeeded demo_world ?links j"
    then have "(i = 0 \<and> j = 1) \<or> (i = 1 \<and> j = 0)" by (auto simp: demo_links)
    then show "episode_number demo_world (?links ! i) (i + 1) \<noteq>
                episode_number demo_world (?links ! j) (j + 1)"
      using demo_numbers by (auto simp: demo_links)
  qed
  from episode_keys_are_distinct [OF h1 h2 h3] obtain t eps
    where run: "get_all_episodes demo_world demo_url = (t, Inr (Some eps))"
      and dist: "distinct (map fst eps)"
      and kept: "(\<forall>i j. i < length ?links \<and> j < length ?links \<and> i \<noteq> j \<and>
                succeeded demo_world ?links i \<and> succeeded demo_world ?links j \<longrightarrow>
                episode_number demo_world (?links ! i) (i + 1) \<noteq>
                episode_number demo_world (?links ! j) (j + 1)) \<longrightarrow>
            (\<forall>i k r. i < length ?links \<and>
                outcome demo_world ?links i = Inr (Some (k, r)) \<longrightarrow> map_of eps k = Some r)"
    by blast
  from kept apart have all: "\<forall>i k r. i < length ?links \<and>
                outcome demo_world ?links i = Inr (Some (k, r)) \<longrightarrow> map_of eps k = Some r"
    by (rule mp)
  have "0 < length ?links \<and>
          outcome demo_world ?links 0 = Inr (Some (''2'', demo_episode 2 ''/ep-2-x''))"
    using demo_outcomes by (simp add: demo_links)
  with all have e2: "map_of eps ''2'' = Some (demo_episode 2 ''/ep-2-x'')" by blast
  have "1 < length ?links \<and>
          outcome demo_world ?links 1 = Inr (Some (''5'', demo_episode 5 ''/ep-5''))"
    using demo_outcomes by (simp add: demo_links)
  with all have e5: "map_of eps ''5'' = Some (demo_episode 5 ''/ep-5'')" by blast
  from run dist e2 e5 have "\<exists>t eps. get_all_episodes demo_world demo_url = (t, Inr (Some eps)) \<and>
      distinct (map fst eps) \<and>
      map_of eps ''2'' = Some (demo_episode 2 ''/ep-2-x'') \<and>
      map_of eps ''5'' = Some (demo_episode 5 ''/ep-5'')"
    by blast
  with h1 h2 h3 show ?thesis by (intro conjI)
qed

text \<open>
  C5 as stated fails: the link \<open>/x-2-y\<close> carries the number 2, the link \<open>/special\<close>
  carries none and is numbered by its position, which is 2 as well. Both are processed
  with success under the key \<open>2\<close>, and the mapping holds one record.
\<close>

theorem distinct_urls_distinct_keys_counterexample:
  "links_of fallback_world ''main'' = [''/x-2-y'', ''/special''] \<and>
   outcome fallback_world [''/x-2-y'', ''/special''] 0 =
     Inr (Some (''2'', demo_episode 2 ''/x-2-y'')) \<and>
   outcome fallback_world [''/x-2-y'', ''/special''] 1 =
     Inr (Some (''2'', demo_episode 2 ''/special'')) \<and>
   snd (get_all_episodes fallback_world demo_url) =
     Inr (Some [(''2'', demo_episode 2 ''/x-2-y'')])"
  by (simp add: fallback_links)
     (simp add: outcome_def demo_defs string_defs run_defs)

section \<open>The shape of the saved record\<close>

lemma genres_shape: "list_all is_genre (map (\<lambda>a. JObj [(''text'', JStr (strip a))]) as)"
  by (induction as) (simp_all add: is_genre_def dict_get_def)

lemma extract_info_shape:
  assumes "snd (extract_info w base_url) = Inr info"
  shows "is_info_record info \<or> is_error_record info"
proof (cases "send w At_extract_info (http_get base_url 10)")
  case (Inl e)
  with assms show ?thesis
    by (auto simp: extract_info_def is_error_record_def dict_get_def)
next
  case (Inr page)
  show ?thesis
  proof (cases "find_media_box w page")
    case None
    with Inr assms show ?thesis
      by (auto simp: extract_info_def is_error_record_def dict_get_def)
  next
    case (Some box)
    with Inr assms have i: "info =
        JObj [(''genres'', JArr (case genres_links box of None \<Rightarrow> []
                 | Some as \<Rightarrow> map (\<lambda>a. JObj [(''text'', JStr (strip a))]) as)),
              (''content'', (case content_p box of None \<Rightarrow> JNull | Some p \<Rightarrow> JStr (strip p)))]"
      by (auto simp: extract_info_def Let_def)
    have "is_info_record info"
      unfolding i
      by (cases "genres_links box"; cases "content_p box")
         (simp_all add: is_info_record_def dict_get_def genres_shape)
    then show ?thesis by simp
  qed
qed

lemma episode_result_shape:
  "truthy eu \<Longrightarrow> is_episode_record (str_nat n) (episode_result n link eu ty)"
  by (simp add: is_episode_record_def episode_result_def dict_get_def)

lemma get_all_episodes_collects:
  assumes "snd (get_all_episodes w base_url) = Inr (Some eps)"
  shows "\<exists>links order. eps = snd (collect w links order [])"
proof (cases "send w At_get_all_episodes (http_get base_url 10)")
  case (Inl e)
  with assms show ?thesis by (simp add: get_all_episodes_def)
next
  case (Inr page)
  let ?links = "links_of w page"
  let ?order = "filter (\<lambda>i. i < length ?links) (as_completed w)"
  from Inr assms have "eps = snd (collect w ?links ?order [])"
    by (cases "collect w ?links ?order []") (simp add: get_all_episodes_def Let_def)
  then show ?thesis by blast
qed

lemma episodes_entries:
  assumes "snd (get_all_episodes w base_url) = Inr (Some eps)"
  shows "distinct (map fst eps) \<and>
         (\<forall>k e. (k, e) \<in> set eps \<longrightarrow>
            (\<exists>n link embed_url embed_type.
               k = str_nat n \<and> e = episode_result n link embed_url embed_type \<and> truthy embed_url))"
proof -
  from get_all_episodes_collects [OF assms] obtain links order
    where eps: "eps = snd (collect w links order [])" by blast
  have dist: "distinct (map fst eps)"
    unfolding eps by (rule collect_distinct) simp
  have "\<exists>n link embed_url embed_type.
          k = str_nat n \<and> e = episode_result n link embed_url embed_type \<and> truthy embed_url"
    if "(k, e) \<in> set eps" for k e
  proof -
    from that dist have "map_of eps k = Some e" by simp
    then obtain i where "outcome w links i = Inr (Some (k, e))"
      unfolding eps using collect_entries by blast
    then have "snd (process_episode_link w (links ! i) (i + 1)) = Inr (Some (k, e))"
      by (simp add: outcome_def)
    from process_episode_link_success [OF this] obtain n eu ty
      where "k = str_nat n" "e = episode_result n (links ! i) eu ty" "truthy eu"
      by (elim exE conjE)
    then show ?thesis by (intro exI conjI)
  qed
  with dist show ?thesis by (intro conjI allI impI)
qed

lemma episodes_shape:
  assumes "snd (get_all_episodes w base_url) = Inr (Some eps)"
  shows "list_all (\<lambda>(k, e). is_episode_record k e) eps"
proof -
  have "is_episode_record k e" if "(k, e) \<in> set eps" for k e
  proof -
    from episodes_entries [OF assms] that obtain n link eu ty
      where "k = str_nat n" "e = episode_result n link eu ty" "truthy eu"
      by blast
    then show ?thesis by (simp add: episode_result_shape)
  qed
  then show ?thesis by (auto simp: list_all_iff)
qed

lemma upload_attempt_value:
  assumes "upload_attempt w rq = (t, Inr v)"
  shows "v = JNull \<or>
         (\<exists>body data s d.
            send w At_upload_image_from_url rq = Inr body \<and> json_loads w body = Inr data \<and>
            subscript data ''success'' = Inr s \<and> truthy s \<and>
            subscript data ''data'' = Inr d \<and> subscript d ''url'' = Inr v)"
proof (cases "send w At_upload_image_from_url rq")
  case (Inl e)
  with assms show ?thesis by (simp add: upload_attempt_def)
next
  case body: (Inr body)
  show ?thesis
  proof (cases "json_loads w body")
    case (Inl e)
    with assms body show ?thesis by (simp add: upload_attempt_def)
  next
    case data: (Inr data)
    show ?thesis
    proof (cases "subscript data ''success''")
      case (Inl e)
      with assms body data show ?thesis by (simp add: upload_attempt_def bind_Inl)
    next
      case s: (Inr s)
      show ?thesis
      proof (cases "truthy s")
        case False
        with assms body data s show ?thesis by (simp add: upload_attempt_def bind_Inr)
      next
        case True
        show ?thesis
        proof (cases "subscript data ''data''")
          case (Inl e)
          with assms body data s True show ?thesis
            by (simp add: upload_attempt_def bind_Inr bind_Inl)
        next
          case d: (Inr d)
          with assms body data s True have "subscript d ''url'' = Inr v"
            by (simp add: upload_attempt_def bind_Inr)
          with body data s True d show ?thesis by simp
        qed
      qed
    qed
  qed
qed

lemma upload_image_value:
  assumes "snd (upload_image_from_url w image_url) = Inr v"
  shows "v = JNull \<or>
         (\<exists>body data s d.
            send w At_upload_image_from_url (upload_request image_url) = Inr body \<and>
            json_loads w body = Inr data \<and>
            subscript data ''success'' = Inr s \<and> truthy s \<and>
            subscript data ''data'' = Inr d \<and> subscript d ''url'' = Inr v)"
proof (cases "image_url = []")
  case True
  with assms show ?thesis by (simp add: upload_image_from_url_def)
next
  case False
  obtain t r where a: "upload_attempt w (upload_request image_url) = (t, r)"
    by (cases "upload_attempt w (upload_request image_url)")
  show ?thesis
  proof (cases r)
    case (Inl e)
    with assms False a show ?thesis by (simp add: upload_image_from_url_def)
  next
    case (Inr v')
    with assms False a have "v' = v" by (simp add: upload_image_from_url_def)
    with a Inr show ?thesis using upload_attempt_value by simp
  qed
qed

lemma get_bg_image_value:
  assumes "snd (get_bg_image w base_url) = Inr img_url"
  shows "img_url = JNull \<or>
         (\<exists>image_url body data s d.
            send w At_upload_image_from_url (upload_request image_url) = Inr body \<and>
            json_loads w body = Inr data \<and>
            subscript data ''success'' = Inr s \<and> truthy s \<and>
            subscript data ''data'' = Inr d \<and> subscript d ''url'' = Inr img_url)"
proof (cases "send w At_get_bg_image (http_get base_url 10)")
  case (Inl e)
  with assms show ?thesis by (simp add: get_bg_image_def)
next
  case page: (Inr page)
  show ?thesis
  proof (cases "select_bg_image w page")
    case None
    with assms page show ?thesis by (simp add: get_bg_image_def)
  next
    case (Some attr)
    show ?thesis
    proof (cases attr)
      case None
      with assms page Some show ?thesis by (simp add: get_bg_image_def)
    next
      case url: (Some image_url)
      obtain t r where u: "upload_image_from_url w image_url = (t, r)"
        by (cases "upload_image_from_url w image_url")
      with assms page Some url have "snd (upload_image_from_url w image_url) = Inr img_url"
        by (cases r) (simp_all add: get_bg_image_def bind_Inr)
      from upload_image_value [OF this] show ?thesis by blast
    qed
  qed
qed

lemma successful_run:
  assumes "startswith base_url ''https://web.animerco.org/''"
    and "makedirs w fs ''cache'' = Inr fs1"
    and "\<forall>nd. fs (cache_file_of base_url) = Some nd \<longrightarrow>
           (\<exists>t c. nd = File t c) \<and>
           \<not> float_less (float_sub (time_at_check w) (mtime nd)) 86400"
    and "snd (get_all_episodes w base_url) = Inr (Some eps)"
    and "snd (get_bg_image w base_url) = Inr img_url"
    and "snd (extract_info w base_url) = Inr info"
  shows "\<exists>fs'. snd (scrape_and_save w fs base_url) = Inr fs' \<and>
           fs' (cache_file_of base_url) =
             Some (File (time_at_write w) (json_dump w (data_to_save base_url img_url info eps)))"
proof -
  let ?cf = "cache_file_of base_url"
  let ?new = "File (time_at_write w) (json_dump w (data_to_save base_url img_url info eps))"
  have same: "fs1 ?cf = fs ?cf"
    using assms(2) cache_file_not_dir by (rule makedirs_other)
  have stale: "\<not> fresh w fs1 ?cf"
    using assms(3) same by (cases "fs ?cf") (auto simp: fresh_def file_age_def)
  obtain d1 where d1: "fs1 ''cache'' = Some (Dir d1)"
    using makedirs_dir [OF assms(2)] by (elim exE)
  obtain t1 where t1: "get_all_episodes w base_url = (t1, Inr (Some eps))"
    using assms(4) by (cases "get_all_episodes w base_url") simp
  obtain t2 where t2: "get_bg_image w base_url = (t2, Inr img_url)"
    using assms(5) by (cases "get_bg_image w base_url") simp
  obtain t3 where t3: "extract_info w base_url = (t3, Inr info)"
    using assms(6) by (cases "extract_info w base_url") simp
  note fetch = scrape_fetches [OF assms(1) assms(2) stale t1 t2 t3]
  show ?thesis
  proof (cases "fs ?cf")
    case None
    have absent: "fs1 ?cf = None" using same None by simp
    have parent: "fs1 (dirname ?cf) = Some (Dir d1)" using d1 by (simp add: dirname_cache_file)
    have "write_file w fs1 ?cf (json_dump w (data_to_save base_url img_url info eps)) =
            Inr (fs1(dirname ?cf \<mapsto> Dir (time_at_open w), ?cf \<mapsto> ?new))"
      using absent parent by (rule write_file_new)
    then have "snd (scrape_and_save w fs base_url) =
                 Inr (fs1(''cache'' \<mapsto> Dir (time_at_open w), ?cf \<mapsto> ?new))"
      using fetch by (simp add: dirname_cache_file)
    then show ?thesis by simp
  next
    case (Some nd)
    obtain t c where nd: "nd = File t c" using assms(3) Some by blast
    have present: "fs1 ?cf = Some (File t c)" using same Some nd by simp
    have "write_file w fs1 ?cf (json_dump w (data_to_save base_url img_url info eps)) =
            Inr (fs1(?cf \<mapsto> ?new))"
      using present by (rule write_file_existing)
    then have "snd (scrape_and_save w fs base_url) = Inr (fs1(?cf \<mapsto> ?new))"
      using fetch by simp
    then show ?thesis by simp
  qed
qed

lemma demo_info_shape: "is_info_record demo_info"
  by (simp add: is_info_record_def is_genre_def demo_info_def dict_get_def)

text \<open>
  C4, as the code has it. In a successful run of \<open>scrape_and_save\<close> the cache file holds
  the serialization of the flat record with exactly the fields \<open>success\<close> (true),
  \<open>base_url\<close> (the source URL), \<open>imgUrl\<close>, \<open>info\<close> and \<open>episodes\<close>, in this order.
  \<open>imgUrl\<close> is null or the \<open>data.url\<close> of an answer of the image host with a truthy
  \<open>success\<close>; \<open>info\<close> is a record of a genre list and a description or, when the
  extraction of the info failed, a record of one error message; \<open>episodes\<close> has distinct
  keys and maps the decimal string of an episode number to the record of the episode
  number, the page URL, a truthy embed URL and the embed type. When the info was extracted
  and the image URL is a string or null, the record is as the specification describes it.
\<close>

theorem saved_record_has_its_shape:
  assumes "startswith base_url ''https://web.animerco.org/''"
    and "makedirs w fs ''cache'' = Inr fs1"
    and "\<forall>nd. fs (cache_file_of base_url) = Some nd \<longrightarrow>
           (\<exists>t c. nd = File t c) \<and>
           \<not> float_less (float_sub (time_at_check w) (mtime nd)) 86400"
    and "snd (get_all_episodes w base_url) = Inr (Some eps)"
    and "snd (get_bg_image w base_url) = Inr img_url"
    and "snd (extract_info w base_url) = Inr info"
  shows "\<exists>fs' saved. snd (scrape_and_save w fs base_url) = Inr fs' \<and>
           fs' (cache_file_of base_url) = Some (File (time_at_write w) (json_dump w saved)) \<and>
           saved = JObj [(''success'', JBool True), (''base_url'', JStr base_url),
                         (''imgUrl'', img_url), (''info'', info), (''episodes'', JObj eps)] \<and>
           (img_url = JNull \<or>
            (\<exists>image_url body data s d.
               send w At_upload_image_from_url (upload_request image_url) = Inr body \<and>
               json_loads w body = Inr data \<and>
               subscript data ''success'' = Inr s \<and> truthy s \<and>
               subscript data ''data'' = Inr d \<and> subscript d ''url'' = Inr img_url)) \<and>
           (is_info_record info \<or> is_error_record info) \<and>
           distinct (map fst eps) \<and>
           (\<forall>k e. (k, e) \<in> set eps \<longrightarrow>
              (\<exists>n link embed_url embed_type.
                 k = str_nat n \<and> truthy embed_url \<and>
                 e = JObj [(''episode'', JInt (int n)), (''page_url'', JStr link),
                           (''embed_url'', embed_url), (''type'', embed_type)])) \<and>
           cache_record_shape (\<lambda>img. True) (\<lambda>info. is_info_record info \<or> is_error_record info)
             saved \<and>
           (is_info_record info \<and> (img_url = JNull \<or> is_str img_url) \<longrightarrow>
              spec_record_shape saved)"
proof -
  let ?saved = "JObj [(''success'', JBool True), (''base_url'', JStr base_url),
                      (''imgUrl'', img_url), (''info'', info), (''episodes'', JObj eps)]"
  have rec: "data_to_save base_url img_url info eps = ?saved"
    by (simp add: data_to_save_def)
  obtain fs' where run: "snd (scrape_and_save w fs base_url) = Inr fs'"
    and wrote: "fs' (cache_file_of base_url) = Some (File (time_at_write w) (json_dump w ?saved))"
    using successful_run [OF assms] unfolding rec by (elim exE conjE)
  have img: "img_url = JNull \<or>
            (\<exists>image_url body data s d.
               send w At_upload_image_from_url (upload_request image_url) = Inr body \<and>
               json_loads w body = Inr data \<and>
               subscript data ''success'' = Inr s \<and> truthy s \<and>
               subscript data ''data'' = Inr d \<and> subscript d ''url'' = Inr img_url)"
    using assms(5) by (rule get_bg_image_value)
  have inf: "is_info_record info \<or> is_error_record info"
    using assms(6) by (rule extract_info_shape)
  have dist: "distinct (map fst eps)"
    using episodes_entries [OF assms(4)] by (elim conjE)
  have ent: "\<forall>k e. (k, e) \<in> set eps \<longrightarrow>
              (\<exists>n link embed_url embed_type.
                 k = str_nat n \<and> truthy embed_url \<and>
                 e = JObj [(''episode'', JInt (int n)), (''page_url'', JStr link),
                           (''embed_url'', embed_url), (''type'', embed_type)])"
  proof (intro allI impI)
    fix k e
    assume "(k, e) \<in> set eps"
    with episodes_entries [OF assms(4)] obtain n link eu ty
      where "k = str_nat n" "e = episode_result n link eu ty" "truthy eu"
      by blast
    then have "k = str_nat n \<and> truthy eu \<and>
                 e = JObj [(''episode'', JInt (int n)), (''page_url'', JStr link),
                           (''embed_url'', eu), (''type'', ty)]"
      by (simp add: episode_result_def)
    then show "\<exists>n link embed_url embed_type.
                 k = str_nat n \<and> truthy embed_url \<and>
                 e = JObj [(''episode'', JInt (int n)), (''page_url'', JStr link),
                           (''embed_url'', embed_url), (''type'', embed_type)]"
      by (intro exI)
  qed
  have eps: "list_all (\<lambda>(k, e). is_episode_record k e) eps"
    using assms(4) by (rule episodes_shape)
  have shape: "cache_record_shape (\<lambda>img. True)
                 (\<lambda>info. is_info_record info \<or> is_error_record info) ?saved"
    using inf dist eps by (simp add: cache_record_shape_def dict_get_def)
  have spec: "is_info_record info \<and> (img_url = JNull \<or> is_str img_url) \<longrightarrow>
                spec_record_shape ?saved"
    using dist eps by (simp add: spec_record_shape_def cache_record_shape_def dict_get_def)
  from run wrote img inf dist ent shape spec
  have "snd (scrape_and_save w fs base_url) = Inr fs' \<and>
           fs' (cache_file_of base_url) = Some (File (time_at_write w) (json_dump w ?saved)) \<and>
           ?saved = JObj [(''success'', JBool True), (''base_url'', JStr base_url),
                         (''imgUrl'', img_url), (''info'', info), (''episodes'', JObj eps)] \<and>
           (img_url = JNull \<or>
            (\<exists>image_url body data s d.
               send w At_upload_image_from_url (upload_request image_url) = Inr body \<and>
               json_loads w body = Inr data \<and>
               subscript data ''success'' = Inr s \<and> truthy s \<and>
               subscript data ''data'' = Inr d \<and> subscript d ''url'' = Inr img_url)) \<and>
           (is_info_record info \<or> is_error_record info) \<and>
           distinct (map fst eps) \<and>
           (\<forall>k e. (k, e) \<in> set eps \<longrightarrow>
              (\<exists>n link embed_url embed_type.
                 k = str_nat n \<and> truthy embed_url \<and>
                 e = JObj [(''episode'', JInt (int n)), (''page_url'', JStr link),
                           (''embed_url'', embed_url), (''type'', embed_type)])) \<and>
           cache_record_shape (\<lambda>img. True) (\<lambda>info. is_info_record info \<or> is_error_record info)
             ?saved \<and>
           (is_info_record info \<and> (img_url = JNull \<or> is_str img_url) \<longrightarrow>
              spec_record_shape ?saved)"
    by (intro conjI refl)
  then show ?thesis by (intro exI)
qed

theorem saved_record_has_its_shape_witness:
  "startswith demo_url ''https://web.animerco.org/'' \<and>
   makedirs demo_world stale_fs ''cache'' = Inr stale_fs \<and>
   stale_fs (cache_file_of demo_url) = Some (File (Double 7 0) ''old'') \<and>
   \<not> float_less (float_sub (time_at_check demo_world) (mtime (File (Double 7 0) ''old''))) 86400 \<and>
   snd (get_all_episodes demo_world demo_url) =
     Inr (Some [(''5'', demo_episode 5 ''/ep-5''), (''2'', demo_episode 2 ''/ep-2-x'')]) \<and>
   snd (get_bg_image demo_world demo_url) = Inr (JStr ''https://i.ibb.co/x.jpg'') \<and>
   snd (extract_info demo_world demo_url) = Inr demo_info \<and>
   is_info_record demo_info \<and> is_str (JStr ''https://i.ibb.co/x.jpg'') \<and>
   (\<exists>fs'. snd (scrape_and_save demo_world stale_fs demo_url) = Inr fs' \<and>
      fs' (cache_file_of demo_url) =
        Some (File (time_at_write demo_world) (json_dump demo_world demo_record))) \<and>
   demo_record =
     JObj [(''success'', JBool True), (''base_url'', JStr demo_url),
           (''imgUrl'', JStr ''https://i.ibb.co/x.jpg''), (''info'', demo_info),
           (''episodes'',
            JObj [(''5'', demo_episode 5 ''/ep-5''), (''2'', demo_episode 2 ''/ep-2-x'')])] \<and>
   spec_record_shape demo_record"
proof -
  have v: "startswith demo_url ''https://web.animerco.org/''"
    by (simp add: demo_defs string_defs)
  have cf: "cache_file_of demo_url = ''cache/naruto.json''"
    by (simp add: demo_defs string_defs Let_def)
  have m: "makedirs demo_world stale_fs ''cache'' = Inr stale_fs"
    by (simp add: makedirs_def stale_fs_def)
  have f: "stale_fs (cache_file_of demo_url) = Some (File (Double 7 0) ''old'')"
    by (simp add: cf) (simp add: stale_fs_def)
  have a: "\<not> float_less (float_sub (time_at_check demo_world) (mtime (File (Double 7 0) ''old''))) 86400"
    by (simp add: demo_world_def float_defs)
  have old: "\<forall>nd. stale_fs (cache_file_of demo_url) = Some nd \<longrightarrow>
           (\<exists>t c. nd = File t c) \<and>
           \<not> float_less (float_sub (time_at_check demo_world) (mtime nd)) 86400"
    using f a by simp
  have s: "is_str (JStr ''https://i.ibb.co/x.jpg'')" by simp
  have r: "demo_record =
     JObj [(''success'', JBool True), (''base_url'', JStr demo_url),
           (''imgUrl'', JStr ''https://i.ibb.co/x.jpg''), (''info'', demo_info),
           (''episodes'',
            JObj [(''5'', demo_episode 5 ''/ep-5''), (''2'', demo_episode 2 ''/ep-2-x'')])]"
    by (rule demo_record_def)
  from saved_record_has_its_shape [OF v m old demo_episodes demo_image demo_extract_info]
  obtain fs' saved where run: "snd (scrape_and_save demo_world stale_fs demo_url) = Inr fs'"
    and wrote: "fs' (cache_file_of demo_url) =
                 Some (File (time_at_write demo_world) (json_dump demo_world saved))"
    and saved: "saved = JObj [(''success'', JBool True), (''base_url'', JStr demo_url),
           (''imgUrl'', JStr ''https://i.ibb.co/x.jpg''), (''info'', demo_info),
           (''episodes'',
            JObj [(''5'', demo_episode 5 ''/ep-5''), (''2'', demo_episode 2 ''/ep-2-x'')])]"
    and spec: "is_info_record demo_info \<and>
                 (JStr ''https://i.ibb.co/x.jpg'' = JNull \<or> is_str (JStr ''https://i.ibb.co/x.jpg'')) \<longrightarrow>
               spec_record_shape saved"
    by (elim exE conjE)
  from saved r have eq: "saved = demo_record" by simp
  from spec demo_info_shape s have sp: "spec_record_shape demo_record"
    unfolding eq by simp
  from run wrote have "\<exists>fs'. snd (scrape_and_save demo_world stale_fs demo_url) = Inr fs' \<and>
      fs' (cache_file_of demo_url) =
        Some (File (time_at_write demo_world) (json_dump demo_world demo_record))"
    unfolding eq by (intro exI conjI)
  with v m f a demo_episodes demo_image demo_extract_info demo_info_shape s r sp
  show ?thesis by (intro conjI)
qed

text \<open>
  C4 as stated fails: the title page of \<open>no_box_world\<close> has no \<open>div.media-box\<close>; the
  run succeeds and saves a record whose \<open>info\<close> is neither null nor a genre list with a
  description, but the error record. Its other fields are as the specification says.
\<close>

theorem info_record_shape_counterexample:
  "snd (scrape_and_save no_box_world Map.empty demo_url) =
     Inr [''cache'' \<mapsto> Dir (Double 100008 0),
          ''cache/naruto.json'' \<mapsto> File (Double 100009 0) (json_dump no_box_world no_box_record)] \<and>
   field no_box_record ''info'' = JObj [(''error'', JStr ''media-box not found'')] \<and>
   cache_record_shape (\<lambda>img. img = JNull \<or> is_str img) (\<lambda>info. True) no_box_record \<and>
   \<not> spec_record_shape no_box_record"
proof -
  have "snd (scrape_and_save no_box_world Map.empty demo_url) =
     Inr [''cache'' \<mapsto> Dir (Double 100008 0),
          ''cache/naruto.json'' \<mapsto> File (Double 100009 0) (json_dump no_box_world no_box_record)]"
    by (simp add: demo_defs string_defs run_defs float_defs)
  moreover have "field no_box_record ''info'' = JObj [(''error'', JStr ''media-box not found'')]"
    by (simp add: no_box_record_def dict_get_def)
  moreover have "cache_record_shape (\<lambda>img. img = JNull \<or> is_str img) (\<lambda>info. True) no_box_record"
    by (simp add: no_box_record_def cache_record_shape_def is_episode_record_def
        demo_episode_def demo_url_def dict_get_def string_defs)
  moreover have "\<not> spec_record_shape no_box_record"
    by (simp add: no_box_record_def spec_record_shape_def cache_record_shape_def
        is_info_record_def dict_get_def)
  ultimately show ?thesis by (intro conjI)
qed

section \<open>Failures\<close>











































end
